theory Spec2Isabelle
  imports Main "HOL-Library.Word"
begin

section \<open>The task table of OS.h\<close>

text \<open>
  A function pointer and a data pointer are opaque addresses; only equality with each
  other and with the null pointer is ever looked at. The address 0 is \<open>NULL\<close>.
\<close>

type_synonym fncPtr = nat
type_synonym voidPtr = nat

definition NULL :: nat where
  "NULL = 0"

definition OS_MAX_TASK_NUM :: nat where
  "OS_MAX_TASK_NUM = 25"

definition OS_MAX_TIME :: "32 word" where
  "OS_MAX_TIME = 86400000"

definition OS_MIN_TIME :: "32 word" where
  "OS_MIN_TIME = 1"

datatype OS_state = SUSPENDED | BLOCKED | READY | STOPPED

datatype OS_feedback = OK | NOK_NULL_PTR | NOK_TIME_LIMIT | NOK_CNT_LIMIT | NOK_UNKNOWN

text \<open>The members of the enumeration \<open>task_period\<close> that the scheduler itself uses.\<close>

definition period_end :: "32 word" where
  "period_end = 0"

definition period_1ms :: "32 word" where
  "period_1ms = 1"

definition period_10ms :: "32 word" where
  "period_10ms = period_1ms * 10"

text \<open>
  \<open>OS_struct\<close>: the field \<open>function\<close> of the C struct is called \<open>task_function\<close>
  here, \<open>function\<close> being a keyword. \<open>uint32_t\<close> fields are 32-bit words, whose
  arithmetic wraps around as in C.
\<close>

record OS_struct =
  task_function :: fncPtr
  task_period :: "32 word"
  execute_time :: "32 word"
  state :: OS_state
  data_ptr :: voidPtr

text \<open>
  The three file-scope variables of OS.c. \<open>task_array\<close> has \<open>OS_MAX_TASK_NUM\<close>
  elements; \<open>task_count\<close> is a \<open>uint8_t\<close> that the code only ever increments below
  \<open>OS_MAX_TASK_NUM\<close>, so it is a natural number here and never wraps.
\<close>

record sys =
  task_array :: "OS_struct list"
  task_count :: nat
  os_time :: "32 word"

text \<open>A zero-initialised element of the static array, and the state at program start.\<close>

definition zero_task :: OS_struct where
  "zero_task = \<lparr>task_function = NULL, task_period = 0, execute_time = 0,
     state = SUSPENDED, data_ptr = NULL\<rparr>"

definition OS_init :: sys where
  "OS_init = \<lparr>task_array = replicate OS_MAX_TASK_NUM zero_task, task_count = 0, os_time = 0\<rparr>"

text \<open>
  The shape the C declarations give every state: the array has \<open>OS_MAX_TASK_NUM\<close>
  elements, and the tail index is a position of the array or the one behind the last.
\<close>

definition sys_ok :: "sys \<Rightarrow> bool" where
  "sys_ok s \<longleftrightarrow> length (task_array s) = OS_MAX_TASK_NUM \<and> task_count s \<le> OS_MAX_TASK_NUM"

section \<open>Lookup and registration\<close>

text \<open>
  \<open>OS_TaskFind\<close>: the loop \<open>for (i = 0; i < task_count; i++)\<close>, started at \<open>i\<close>.
  It returns the first position whose function pointer is the one asked for, and the
  invalid position \<open>OS_MAX_TASK_NUM + 1\<close> when the loop runs out.
\<close>

function OS_TaskFind_loop :: "sys \<Rightarrow> fncPtr \<Rightarrow> nat \<Rightarrow> nat" where
  "OS_TaskFind_loop s f i =
     (if i < task_count s then
        (if task_function (task_array s ! i) = f then i
         else OS_TaskFind_loop s f (Suc i))
      else OS_MAX_TASK_NUM + 1)"
  by pat_completeness auto
termination
  by (relation "measure (\<lambda>(s, f, i). task_count s - i)") auto

declare OS_TaskFind_loop.simps [simp del]

definition OS_TaskFind :: "sys \<Rightarrow> fncPtr \<Rightarrow> nat" where
  "OS_TaskFind s f = OS_TaskFind_loop s f 0"

text \<open>
  \<open>OS_TaskInsertPosition\<close>: the loop \<open>for (i = 0; i <= task_count; i++)\<close>, started
  at \<open>i\<close>. It stops at the first position whose function pointer is null, and
  increments \<open>task_count\<close> when that position is the tail. The result is the position
  and the state with the updated count.
\<close>

function OS_TaskInsertPosition_loop :: "sys \<Rightarrow> nat \<Rightarrow> nat \<times> sys" where
  "OS_TaskInsertPosition_loop s i =
     (if i \<le> task_count s then
        (if task_function (task_array s ! i) = NULL then
           (if i = task_count s then (i, s\<lparr>task_count := task_count s + 1\<rparr>) else (i, s))
         else OS_TaskInsertPosition_loop s (Suc i))
      else (i, s))"
  by pat_completeness auto
termination
  by (relation "measure (\<lambda>(s, i). Suc (task_count s) - i)") auto

declare OS_TaskInsertPosition_loop.simps [simp del]

definition OS_TaskInsertPosition :: "sys \<Rightarrow> nat \<times> sys" where
  "OS_TaskInsertPosition s = OS_TaskInsertPosition_loop s 0"

definition OS_GetOsTime :: "sys \<Rightarrow> 32 word" where
  "OS_GetOsTime s = os_time s"

text \<open>
  \<open>OS_TaskCreate\<close>: the period check, then the check of \<open>task_count\<close> against
  \<open>OS_MAX_TASK_NUM\<close>, and only then the lookup. The result is the feedback and the
  state after the call.
\<close>

definition OS_TaskCreate ::
  "fncPtr \<Rightarrow> 32 word \<Rightarrow> OS_state \<Rightarrow> voidPtr \<Rightarrow> 32 word \<Rightarrow> sys \<Rightarrow> OS_feedback \<times> sys" where
  "OS_TaskCreate f default_task_period default_state function_data_ptr defer_time s =
     (if OS_MIN_TIME > default_task_period \<or> OS_MAX_TIME < default_task_period then
        (NOK_TIME_LIMIT, s)
      else if OS_MAX_TASK_NUM \<le> task_count s then
        (NOK_CNT_LIMIT, s)
      else
        (let position = OS_TaskFind s f in
         if position > OS_MAX_TASK_NUM then
           (let (position, s1) = OS_TaskInsertPosition s in
            (OK, s1\<lparr>task_array := (task_array s1)[position :=
                 (task_array s1 ! position)\<lparr>task_function := f,
                    task_period := default_task_period,
                    state := default_state,
                    execute_time := os_time s1 + defer_time,
                    data_ptr := function_data_ptr\<rparr>]\<rparr>))
         else
           (OK, s\<lparr>task_array := (task_array s)[position :=
                (task_array s ! position)\<lparr>task_period := default_task_period,
                   state := default_state,
                   execute_time := os_time s + defer_time,
                   data_ptr := function_data_ptr\<rparr>]\<rparr>)))"

definition OS_TaskCreateSimple :: "fncPtr \<Rightarrow> sys \<Rightarrow> OS_feedback \<times> sys" where
  "OS_TaskCreateSimple f s = OS_TaskCreate f period_1ms BLOCKED NULL 0 s"

definition OS_TaskScheduleSimple :: "fncPtr \<Rightarrow> 32 word \<Rightarrow> sys \<Rightarrow> OS_feedback \<times> sys" where
  "OS_TaskScheduleSimple f defer_time s = OS_TaskCreate f period_1ms BLOCKED NULL defer_time s"

definition OS_TaskIsInQueue :: "sys \<Rightarrow> fncPtr \<Rightarrow> bool" where
  "OS_TaskIsInQueue s f = (if OS_TaskFind s f < OS_MAX_TASK_NUM then True else False)"

section \<open>The timer pass\<close>

text \<open>
  The body of the loop of \<open>OS_TaskTimer\<close> on one element, \<open>now\<close> being \<open>os_time\<close>
  after its increment.
\<close>

definition timer_task :: "32 word \<Rightarrow> OS_struct \<Rightarrow> OS_struct" where
  "timer_task now t =
     (if state t \<noteq> SUSPENDED then
        (if state t = BLOCKED then
           (if execute_time t \<le> now then
              t\<lparr>execute_time := execute_time t + task_period t * period_1ms, state := READY\<rparr>
            else t)
         else if state t = STOPPED then
           t\<lparr>task_function := NULL, task_period := 0, execute_time := 0,
             state := SUSPENDED, data_ptr := NULL\<rparr>
         else t)
      else t)"

function OS_TaskTimer_loop :: "sys \<Rightarrow> nat \<Rightarrow> sys" where
  "OS_TaskTimer_loop s i =
     (if i < task_count s then
        OS_TaskTimer_loop
          (s\<lparr>task_array := (task_array s)[i := timer_task (os_time s) (task_array s ! i)]\<rparr>)
          (Suc i)
      else s)"
  by pat_completeness auto
termination
  by (relation "measure (\<lambda>(s, i). task_count s - i)") auto

declare OS_TaskTimer_loop.simps [simp del]

definition OS_TaskTimer :: "sys \<Rightarrow> sys" where
  "OS_TaskTimer s = OS_TaskTimer_loop (s\<lparr>os_time := os_time s + period_1ms\<rparr>) 0"

text \<open>\<open>n\<close> invocations of \<open>OS_TaskTimer\<close> in a row.\<close>

fun ticks :: "nat \<Rightarrow> sys \<Rightarrow> sys" where
  "ticks 0 s = s"
| "ticks (Suc n) s = ticks n (OS_TaskTimer s)"

section \<open>The execution pass\<close>

text \<open>
  A task body is code outside the scheduler. It is modelled as a function of the
  function pointer, the data pointer it is called with and the state \<open>'w\<close> of
  everything outside the scheduler, returning the next period and the new outside
  state. Task bodies here do not call back into the scheduler, and the timer
  interrupt does not arrive inside a pass: both passes run to completion.
\<close>

type_synonym 'w task_env = "fncPtr \<Rightarrow> voidPtr \<Rightarrow> 'w \<Rightarrow> 32 word \<times> 'w"

text \<open>Calling through a null function pointer is a fault of the machine, not a result.\<close>

datatype fault = NullCall

text \<open>
  What the body of the loop of \<open>OS_TaskExecution\<close> stores in a \<open>READY\<close> element once
  its task has returned \<open>period\<close>; \<open>now\<close> is \<open>OS_GetOsTime()\<close>.
\<close>

definition exec_update :: "32 word \<Rightarrow> OS_struct \<Rightarrow> 32 word \<Rightarrow> OS_struct" where
  "exec_update now t period =
     (let t1 = (if period \<noteq> task_period t
                then t\<lparr>task_period := period, execute_time := now + period\<rparr>
                else t)
      in if period = period_end then t1\<lparr>state := STOPPED\<rparr> else t1\<lparr>state := BLOCKED\<rparr>)"

text \<open>
  The call of the task at position \<open>i\<close> and the update of its element. The result
  holds the new state, the new outside state and the value the task returned.
\<close>

definition exec_task :: "'w task_env \<Rightarrow> sys \<Rightarrow> nat \<Rightarrow> 'w \<Rightarrow> fault + (sys \<times> 'w \<times> 32 word)" where
  "exec_task call s i w =
     (let t = task_array s ! i in
      if task_function t = NULL then Inl NullCall
      else
        (let (period, w') = call (task_function t) (data_ptr t) w in
         Inr (s\<lparr>task_array := (task_array s)[i := exec_update (OS_GetOsTime s) t period]\<rparr>,
              w', period)))"

text \<open>
  The loop \<open>for (i = 0; i < task_count; i++)\<close> of \<open>OS_TaskExecution\<close>, started at
  \<open>i\<close>. The last argument is a record of the calls made so far, kept for the proofs
  only: the position called and the value returned, in the order of the calls.
\<close>

function OS_TaskExecution_loop ::
  "'w task_env \<Rightarrow> sys \<Rightarrow> nat \<Rightarrow> 'w \<Rightarrow> (nat \<times> 32 word) list
     \<Rightarrow> fault + (sys \<times> 'w \<times> (nat \<times> 32 word) list)" where
  "OS_TaskExecution_loop call s i w calls =
     (if i < task_count s then
        (if READY = state (task_array s ! i) then
           (case exec_task call s i w of
              Inl e \<Rightarrow> Inl e
            | Inr (s', w', period) \<Rightarrow>
                OS_TaskExecution_loop call s' (Suc i) w' (calls @ [(i, period)]))
         else OS_TaskExecution_loop call s (Suc i) w calls)
      else Inr (s, w, calls))"
  by pat_completeness auto
termination
  by (relation "measure (\<lambda>(call, s, i, w, calls). task_count s - i)")
     (auto simp: exec_task_def Let_def split: if_splits prod.splits)

declare OS_TaskExecution_loop.simps [simp del]

definition OS_TaskExecution ::
  "'w task_env \<Rightarrow> sys \<Rightarrow> 'w \<Rightarrow> fault + (sys \<times> 'w \<times> (nat \<times> 32 word) list)" where
  "OS_TaskExecution call s w = OS_TaskExecution_loop call s 0 w []"

text \<open>
  Every \<open>READY\<close> element below the tail holds a function pointer that can be called.
  Registration does not refuse a null pointer, so this is a condition on the state.
\<close>

definition ready_tasks_callable :: "sys \<Rightarrow> bool" where
  "ready_tasks_callable s \<longleftrightarrow>
     (\<forall>j\<in>{..<task_count s}.
        state (task_array s ! j) = READY \<longrightarrow> task_function (task_array s ! j) \<noteq> NULL)"

section \<open>Queries and setters\<close>

definition OS_GetTaskState :: "sys \<Rightarrow> fncPtr \<Rightarrow> OS_state" where
  "OS_GetTaskState s f =
     (let position = OS_TaskFind s f in
      if position < OS_MAX_TASK_NUM then state (task_array s ! position) else SUSPENDED)"

definition OS_GetTaskPeriod :: "sys \<Rightarrow> fncPtr \<Rightarrow> 32 word" where
  "OS_GetTaskPeriod s f =
     (let position = OS_TaskFind s f in
      if position < OS_MAX_TASK_NUM then task_period (task_array s ! position) else 0)"

definition OS_GetTaskExecuteTime :: "sys \<Rightarrow> fncPtr \<Rightarrow> 32 word" where
  "OS_GetTaskExecuteTime s f =
     (let position = OS_TaskFind s f in
      if position < OS_MAX_TASK_NUM then execute_time (task_array s ! position) else 0)"

definition OS_SetTaskState :: "fncPtr \<Rightarrow> OS_state \<Rightarrow> sys \<Rightarrow> OS_feedback \<times> sys" where
  "OS_SetTaskState f new_state s =
     (let position = OS_TaskFind s f in
      if position < OS_MAX_TASK_NUM then
        (OK, s\<lparr>task_array := (task_array s)[position :=
               (task_array s ! position)\<lparr>state := new_state\<rparr>]\<rparr>)
      else (NOK_NULL_PTR, s))"

definition OS_SetTaskPeriod :: "fncPtr \<Rightarrow> 32 word \<Rightarrow> sys \<Rightarrow> OS_feedback \<times> sys" where
  "OS_SetTaskPeriod f new_task_period s =
     (let position = OS_TaskFind s f in
      if position < OS_MAX_TASK_NUM then
        (OK, s\<lparr>task_array := (task_array s)[position :=
               (task_array s ! position)\<lparr>task_period := new_task_period\<rparr>]\<rparr>)
      else (NOK_NULL_PTR, s))"

definition OS_SetTaskExecuteTime :: "fncPtr \<Rightarrow> 32 word \<Rightarrow> sys \<Rightarrow> OS_feedback \<times> sys" where
  "OS_SetTaskExecuteTime f new_execute_time s =
     (let position = OS_TaskFind s f in
      if position < OS_MAX_TASK_NUM then
        (OK, s\<lparr>task_array := (task_array s)[position :=
               (task_array s ! position)\<lparr>execute_time := new_execute_time\<rparr>]\<rparr>)
      else (NOK_NULL_PTR, s))"

section \<open>Sequences of passes\<close>

text \<open>
  The timer interrupt and the main loop drive the two passes in some order. A run
  of a list of passes threads the state and the outside state through them, stops at
  the first fault, and collects the calls the execution passes made.
\<close>

datatype pass = TimerPass | ExecutionPass

fun run_passes ::
  "'w task_env \<Rightarrow> pass list \<Rightarrow> sys \<Rightarrow> 'w \<Rightarrow> fault + (sys \<times> 'w \<times> (nat \<times> 32 word) list)" where
  "run_passes call [] s w = Inr (s, w, [])"
| "run_passes call (TimerPass # ps) s w = run_passes call ps (OS_TaskTimer s) w"
| "run_passes call (ExecutionPass # ps) s w =
     (case OS_TaskExecution call s w of
        Inl e \<Rightarrow> Inl e
      | Inr (s1, w1, calls1) \<Rightarrow>
          (case run_passes call ps s1 w1 of
             Inl e \<Rightarrow> Inl e
           | Inr (s', w', calls) \<Rightarrow> Inr (s', w', calls1 @ calls)))"

text \<open>
  Every element below the tail that a pass will sooner or later call (\<open>BLOCKED\<close> or
  \<open>READY\<close>) holds a function pointer that can be called.
\<close>

definition runnable_tasks_callable :: "sys \<Rightarrow> bool" where
  "runnable_tasks_callable s \<longleftrightarrow>
     (\<forall>j\<in>{..<task_count s}.
        state (task_array s ! j) = BLOCKED \<or> state (task_array s ! j) = READY
          \<longrightarrow> task_function (task_array s ! j) \<noteq> NULL)"

section \<open>Sequences of registrations\<close>

text \<open>
  Calls of \<open>OS_TaskCreate\<close> one after the other, each with its five arguments; the
  result is the list of feedbacks and the final state.
\<close>

fun create_all ::
  "(fncPtr \<times> 32 word \<times> OS_state \<times> voidPtr \<times> 32 word) list \<Rightarrow> sys \<Rightarrow> OS_feedback list \<times> sys" where
  "create_all [] s = ([], s)"
| "create_all ((f, p, st, d, defer_time) # rs) s =
     (let (fb, s1) = OS_TaskCreate f p st d defer_time s;
          (fbs, s2) = create_all rs s1
      in (fb # fbs, s2))"

text \<open>The element that \<open>OS_TaskCreate\<close>, called at time \<open>now\<close>, stores for a request.\<close>

fun new_task :: "32 word \<Rightarrow> fncPtr \<times> 32 word \<times> OS_state \<times> voidPtr \<times> 32 word \<Rightarrow> OS_struct" where
  "new_task now (f, p, st, d, defer_time) =
     \<lparr>task_function = f, task_period = p, execute_time = now + defer_time,
      state = st, data_ptr = d\<rparr>"

section \<open>The periodic scenario\<close>

text \<open>
  The state after task \<open>A\<close> has been registered at program start with period 10,
  \<open>BLOCKED\<close>, the data pointer \<open>ctx\<close> and no defer time; and \<open>k\<close> rounds of the
  main loop's execution pass followed by ten timer ticks.
\<close>

definition scenario_start :: "fncPtr \<Rightarrow> voidPtr \<Rightarrow> sys" where
  "scenario_start A ctx = snd (OS_TaskCreate A period_10ms BLOCKED ctx 0 OS_init)"

fun cycles :: "'w task_env \<Rightarrow> nat \<Rightarrow> sys \<Rightarrow> 'w \<Rightarrow> fault + (sys \<times> 'w)" where
  "cycles call 0 s w = Inr (s, w)"
| "cycles call (Suc k) s w =
     (case OS_TaskExecution call s w of
        Inl e \<Rightarrow> Inl e
      | Inr (s1, w1, calls) \<Rightarrow> cycles call k (ticks 10 s1) w1)"

section \<open>States used as concrete inputs\<close>

text \<open>A table whose only used position is 0, holding the element \<open>t\<close>, at time \<open>now\<close>.\<close>

definition one_task :: "OS_struct \<Rightarrow> 32 word \<Rightarrow> sys" where
  "one_task t now =
     \<lparr>task_array = (replicate OS_MAX_TASK_NUM zero_task)[0 := t], task_count = 1, os_time = now\<rparr>"

text \<open>
  The state reached from program start by \<open>2^32 - 1\<close> timer ticks followed by the
  registration of task 1 with period 10, \<open>BLOCKED\<close>, no data and no defer time.
\<close>

definition wrap_state :: sys where
  "wrap_state = snd (OS_TaskCreate 1 10 BLOCKED NULL 0 (ticks (2 ^ 32 - 1) OS_init))"

text \<open>
  The requests \<open>OS_TaskCreateSimple\<close> makes for the tasks 1 to \<open>OS_MAX_TASK_NUM\<close>, and
  the state reached from program start by making them in this order.
\<close>

definition full_requests :: "(fncPtr \<times> 32 word \<times> OS_state \<times> voidPtr \<times> 32 word) list" where
  "full_requests = map (\<lambda>k. (Suc k, period_1ms, BLOCKED, NULL, 0)) [0..<OS_MAX_TASK_NUM]"

definition full_table :: sys where
  "full_table = snd (create_all full_requests OS_init)"

text \<open>Task bodies for the concrete runs: task 1 returns \<open>period_end\<close>, every other task 1 ms.\<close>

definition stop_first :: "unit task_env" where
  "stop_first f d w = (if f = 1 then period_end else period_1ms, w)"

section \<open>The loops, position by position\<close>

subsection \<open>The conditions on states, position by position\<close>

lemma ready_tasks_callable_iff:
  "ready_tasks_callable s \<longleftrightarrow>
     (\<forall>j<task_count s. state (task_array s ! j) = READY \<longrightarrow> task_function (task_array s ! j) \<noteq> NULL)"
  by (auto simp: ready_tasks_callable_def)

lemma runnable_tasks_callable_iff:
  "runnable_tasks_callable s \<longleftrightarrow>
     (\<forall>j<task_count s. state (task_array s ! j) = BLOCKED \<or> state (task_array s ! j) = READY
        \<longrightarrow> task_function (task_array s ! j) \<noteq> NULL)"
  by (auto simp: runnable_tasks_callable_def)

subsection \<open>The clock\<close>

lemma OS_TaskTimer_loop_os_time: "os_time (OS_TaskTimer_loop s i) = os_time s"
  by (induction s i rule: OS_TaskTimer_loop.induct)
     (subst OS_TaskTimer_loop.simps, simp)

lemma OS_TaskTimer_os_time: "os_time (OS_TaskTimer s) = os_time s + 1"
  by (simp add: OS_TaskTimer_def OS_TaskTimer_loop_os_time period_1ms_def)

lemma ticks_os_time: "os_time (ticks n s) = os_time s + of_nat n"
  by (induction n arbitrary: s) (simp_all add: OS_TaskTimer_os_time)

subsection \<open>Lookup and insert position\<close>

lemma OS_TaskFind_loop_found:
  "i \<le> k \<Longrightarrow> k < task_count s \<Longrightarrow> task_function (task_array s ! k) = f \<Longrightarrow>
   (\<forall>j. i \<le> j \<and> j < k \<longrightarrow> task_function (task_array s ! j) \<noteq> f) \<Longrightarrow>
   OS_TaskFind_loop s f i = k"
proof (induction s f i rule: OS_TaskFind_loop.induct)
  case (1 s f i)
  show ?case
  proof (cases "task_function (task_array s ! i) = f")
    case True
    with "1.prems" have "i = k"
      by (metis le_neq_implies_less order_refl)
    with True "1.prems" show ?thesis
      by (subst OS_TaskFind_loop.simps) simp
  next
    case False
    with "1.prems" have ik: "Suc i \<le> k"
      by (metis Suc_leI le_neq_implies_less)
    from "1.prems" ik have "i < task_count s"
      by simp
    moreover have "OS_TaskFind_loop s f (Suc i) = k"
      using "1.IH" [OF \<open>i < task_count s\<close> False ik] "1.prems" by simp
    ultimately show ?thesis
      using False by (subst OS_TaskFind_loop.simps) simp
  qed
qed

lemma OS_TaskFind_loop_none:
  "(\<forall>j. i \<le> j \<and> j < task_count s \<longrightarrow> task_function (task_array s ! j) \<noteq> f) \<Longrightarrow>
   OS_TaskFind_loop s f i = OS_MAX_TASK_NUM + 1"
proof (induction s f i rule: OS_TaskFind_loop.induct)
  case (1 s f i)
  show ?case
  proof (cases "i < task_count s")
    case True
    with "1.prems" have ne: "task_function (task_array s ! i) \<noteq> f"
      by simp
    have "OS_TaskFind_loop s f (Suc i) = OS_MAX_TASK_NUM + 1"
      using "1.IH" [OF True ne] "1.prems" by simp
    with True ne show ?thesis
      by (subst OS_TaskFind_loop.simps) simp
  next
    case False
    then show ?thesis
      by (subst OS_TaskFind_loop.simps) simp
  qed
qed

lemma OS_TaskInsertPosition_loop_at:
  "i \<le> k \<Longrightarrow> k \<le> task_count s \<Longrightarrow> task_function (task_array s ! k) = NULL \<Longrightarrow>
   (\<forall>j. i \<le> j \<and> j < k \<longrightarrow> task_function (task_array s ! j) \<noteq> NULL) \<Longrightarrow>
   OS_TaskInsertPosition_loop s i =
     (k, if k = task_count s then s\<lparr>task_count := task_count s + 1\<rparr> else s)"
proof (induction s i rule: OS_TaskInsertPosition_loop.induct)
  case (1 s i)
  show ?case
  proof (cases "task_function (task_array s ! i) = NULL")
    case True
    with "1.prems" have "i = k"
      by (metis le_neq_implies_less order_refl)
    with True "1.prems" show ?thesis
      by (subst OS_TaskInsertPosition_loop.simps) simp
  next
    case False
    with "1.prems" have ik: "Suc i \<le> k"
      by (metis Suc_leI le_neq_implies_less)
    from "1.prems" ik have le: "i \<le> task_count s"
      by simp
    have "OS_TaskInsertPosition_loop s (Suc i) =
        (k, if k = task_count s then s\<lparr>task_count := task_count s + 1\<rparr> else s)"
      using "1.IH" [OF le False ik] "1.prems" by simp
    with le False show ?thesis
      by (subst OS_TaskInsertPosition_loop.simps) simp
  qed
qed

subsection \<open>The timer loop\<close>

lemma OS_TaskTimer_loop_task_count: "task_count (OS_TaskTimer_loop s i) = task_count s"
  by (induction s i rule: OS_TaskTimer_loop.induct)
     (subst OS_TaskTimer_loop.simps, simp)

lemma OS_TaskTimer_loop_length: "length (task_array (OS_TaskTimer_loop s i)) = length (task_array s)"
  by (induction s i rule: OS_TaskTimer_loop.induct)
     (subst OS_TaskTimer_loop.simps, simp)

lemma OS_TaskTimer_loop_nth:
  "task_count s \<le> length (task_array s) \<Longrightarrow>
   task_array (OS_TaskTimer_loop s i) ! j =
     (if i \<le> j \<and> j < task_count s then timer_task (os_time s) (task_array s ! j)
      else task_array s ! j)"
proof (induction s i rule: OS_TaskTimer_loop.induct)
  case (1 s i)
  show ?case
  proof (cases "i < task_count s")
    case True
    let ?s1 = "s\<lparr>task_array := (task_array s)[i := timer_task (os_time s) (task_array s ! i)]\<rparr>"
    have ih: "task_array (OS_TaskTimer_loop ?s1 (Suc i)) ! j =
        (if Suc i \<le> j \<and> j < task_count ?s1 then timer_task (os_time ?s1) (task_array ?s1 ! j)
         else task_array ?s1 ! j)"
      using "1.IH" [OF True] "1.prems" by simp
    have unf: "OS_TaskTimer_loop s i = OS_TaskTimer_loop ?s1 (Suc i)"
      using True by (subst OS_TaskTimer_loop.simps) simp
    show ?thesis
      using True "1.prems" unfolding unf ih
      by (cases "j = i") auto
  next
    case False
    then show ?thesis
      by (subst OS_TaskTimer_loop.simps) auto
  qed
qed

lemma OS_TaskTimer_task_count: "task_count (OS_TaskTimer s) = task_count s"
  by (simp add: OS_TaskTimer_def OS_TaskTimer_loop_task_count)

lemma OS_TaskTimer_length: "length (task_array (OS_TaskTimer s)) = length (task_array s)"
  by (simp add: OS_TaskTimer_def OS_TaskTimer_loop_length)

lemma OS_TaskTimer_nth:
  "task_count s \<le> length (task_array s) \<Longrightarrow>
   task_array (OS_TaskTimer s) ! j =
     (if j < task_count s then timer_task (os_time s + 1) (task_array s ! j)
      else task_array s ! j)"
  by (simp add: OS_TaskTimer_def OS_TaskTimer_loop_nth period_1ms_def)

subsection \<open>The empty table and the first registration\<close>

lemma OS_TaskTimer_empty: "task_count s = 0 \<Longrightarrow> OS_TaskTimer s = s\<lparr>os_time := os_time s + 1\<rparr>"
  by (simp add: OS_TaskTimer_def OS_TaskTimer_loop.simps period_1ms_def)

lemma ticks_empty: "task_count s = 0 \<Longrightarrow> ticks n s = s\<lparr>os_time := os_time s + of_nat n\<rparr>"
  by (induction n arbitrary: s) (simp_all add: OS_TaskTimer_empty add.assoc)

lemma sys_ok_OS_init: "sys_ok OS_init"
  by (simp add: sys_ok_def OS_init_def)

lemma sys_ok_one_task: "sys_ok (one_task t now)"
  by (simp add: sys_ok_def one_task_def OS_MAX_TASK_NUM_def)

lemma one_task_nth0: "task_array (one_task t now) ! 0 = t"
  by (simp add: one_task_def OS_MAX_TASK_NUM_def)

lemma word32_le_succ: "x \<le> y \<Longrightarrow> y \<noteq> - 1 \<Longrightarrow> x \<le> y + (1 :: 32 word)"
  using inc_less_eq_self_iff_eq by fastforce

text \<open>The first registration into the empty table takes position 0.\<close>

lemma OS_TaskCreate_first:
  assumes "OS_MIN_TIME \<le> p" and "p \<le> OS_MAX_TIME"
  shows "OS_TaskCreate f p st d defer (OS_init\<lparr>os_time := T\<rparr>) =
    (OK, one_task \<lparr>task_function = f, task_period = p, execute_time = T + defer,
                    state = st, data_ptr = d\<rparr> T)"
proof -
  let ?s = "OS_init\<lparr>os_time := T\<rparr>"
  have find: "OS_TaskFind ?s f = OS_MAX_TASK_NUM + 1"
    by (simp add: OS_TaskFind_def OS_TaskFind_loop_none OS_init_def)
  have ins: "OS_TaskInsertPosition ?s = (0, ?s\<lparr>task_count := 1\<rparr>)"
    by (simp add: OS_TaskInsertPosition_def OS_TaskInsertPosition_loop.simps OS_init_def
        OS_MAX_TASK_NUM_def zero_task_def)
  show ?thesis
    using assms
    by (simp add: OS_TaskCreate_def find ins not_less [symmetric])
       (simp add: OS_init_def one_task_def zero_task_def OS_MAX_TASK_NUM_def)
qed

subsection \<open>The execution loop\<close>

lemma OS_TaskExecution_loop_done:
  "\<not> i < task_count s \<Longrightarrow> OS_TaskExecution_loop call s i w calls = Inr (s, w, calls)"
  by (subst OS_TaskExecution_loop.simps) simp

lemma OS_TaskExecution_loop_skip:
  "i < task_count s \<Longrightarrow> state (task_array s ! i) \<noteq> READY \<Longrightarrow>
   OS_TaskExecution_loop call s i w calls = OS_TaskExecution_loop call s (Suc i) w calls"
  by (subst OS_TaskExecution_loop.simps) auto

lemma OS_TaskExecution_loop_null:
  "i < task_count s \<Longrightarrow> state (task_array s ! i) = READY \<Longrightarrow>
   task_function (task_array s ! i) = NULL \<Longrightarrow>
   OS_TaskExecution_loop call s i w calls = Inl NullCall"
  by (subst OS_TaskExecution_loop.simps) (simp add: exec_task_def)

lemma OS_TaskExecution_loop_call:
  "i < task_count s \<Longrightarrow> state (task_array s ! i) = READY \<Longrightarrow>
   task_function (task_array s ! i) \<noteq> NULL \<Longrightarrow>
   call (task_function (task_array s ! i)) (data_ptr (task_array s ! i)) w = (r, w1) \<Longrightarrow>
   OS_TaskExecution_loop call s i w calls =
     OS_TaskExecution_loop call
       (s\<lparr>task_array := (task_array s)[i := exec_update (os_time s) (task_array s ! i) r]\<rparr>)
       (Suc i) w1 (calls @ [(i, r)])"
  by (subst OS_TaskExecution_loop.simps) (simp add: exec_task_def OS_GetOsTime_def)

lemma OS_TaskExecution_loop_spec:
  assumes "task_count s \<le> length (task_array s)"
    and "OS_TaskExecution_loop call s i w calls = Inr (s', w', calls')"
  shows "task_count s' = task_count s \<and> os_time s' = os_time s \<and>
         length (task_array s') = length (task_array s) \<and>
         (\<exists>new. calls' = calls @ new \<and>
            map fst new = filter (\<lambda>j. state (task_array s ! j) = READY) [i..<task_count s] \<and>
            (\<forall>j. task_array s' ! j =
               (if i \<le> j \<and> j < task_count s \<and> state (task_array s ! j) = READY
                then exec_update (os_time s) (task_array s ! j) (the (map_of new j))
                else task_array s ! j)))"
  using assms
proof (induction "task_count s - i" arbitrary: s i w calls)
  case 0
  then have ge: "\<not> i < task_count s"
    by simp
  with "0.prems" have "s' = s" "calls' = calls"
    by (simp_all add: OS_TaskExecution_loop_done)
  with ge show ?case
    by auto
next
  case (Suc n)
  then have lt: "i < task_count s"
    by simp
  have upt: "[i..<task_count s] = i # [Suc i..<task_count s]"
    using lt by (rule upt_conv_Cons)
  show ?case
  proof (cases "state (task_array s ! i) = READY")
    case False
    have n: "n = task_count s - Suc i"
      using Suc.hyps(2) by simp
    have run: "OS_TaskExecution_loop call s (Suc i) w calls = Inr (s', w', calls')"
      using Suc.prems(2) lt False by (simp add: OS_TaskExecution_loop_skip)
    from Suc.hyps(1) [OF n Suc.prems(1) run]
    obtain new where new: "task_count s' = task_count s" "os_time s' = os_time s"
      "length (task_array s') = length (task_array s)" "calls' = calls @ new"
      "map fst new = filter (\<lambda>j. state (task_array s ! j) = READY) [Suc i..<task_count s]"
      "\<forall>j. task_array s' ! j =
         (if Suc i \<le> j \<and> j < task_count s \<and> state (task_array s ! j) = READY
          then exec_update (os_time s) (task_array s ! j) (the (map_of new j))
          else task_array s ! j)"
      by blast
    have "\<forall>j. task_array s' ! j =
         (if i \<le> j \<and> j < task_count s \<and> state (task_array s ! j) = READY
          then exec_update (os_time s) (task_array s ! j) (the (map_of new j))
          else task_array s ! j)"
    proof
      fix j
      show "task_array s' ! j =
         (if i \<le> j \<and> j < task_count s \<and> state (task_array s ! j) = READY
          then exec_update (os_time s) (task_array s ! j) (the (map_of new j))
          else task_array s ! j)"
        using new(6) [rule_format, of j] False by (cases "j = i") auto
    qed
    with new(1-5) False show ?thesis
      unfolding upt by auto
  next
    case True
    show ?thesis
    proof (cases "task_function (task_array s ! i) = NULL")
      case null: True
      with Suc.prems(2) lt True show ?thesis
        by (simp add: OS_TaskExecution_loop_null)
    next
      case code: False
      obtain r w1 where c: "call (task_function (task_array s ! i)) (data_ptr (task_array s ! i)) w = (r, w1)"
        by (cases "call (task_function (task_array s ! i)) (data_ptr (task_array s ! i)) w")
      let ?s1 = "s\<lparr>task_array := (task_array s)[i := exec_update (os_time s) (task_array s ! i) r]\<rparr>"
      have n: "n = task_count ?s1 - Suc i"
        using Suc.hyps(2) by simp
      have len: "task_count ?s1 \<le> length (task_array ?s1)"
        using Suc.prems(1) by simp
      have run: "OS_TaskExecution_loop call ?s1 (Suc i) w1 (calls @ [(i, r)]) = Inr (s', w', calls')"
        using Suc.prems(2) lt True code c
        by (simp add: OS_TaskExecution_loop_call [where r = r and ?w1.0 = w1])
      have other: "task_array ?s1 ! j = task_array s ! j" if "j \<noteq> i" for j
        using that by simp
      have at: "task_array ?s1 ! i = exec_update (os_time s) (task_array s ! i) r"
        using lt Suc.prems(1) by simp
      from Suc.hyps(1) [OF n len run]
      obtain new where new0: "task_count s' = task_count ?s1" "os_time s' = os_time ?s1"
        "length (task_array s') = length (task_array ?s1)" "calls' = (calls @ [(i, r)]) @ new"
        "map fst new = filter (\<lambda>j. state (task_array ?s1 ! j) = READY) [Suc i..<task_count ?s1]"
        "\<forall>j. task_array s' ! j =
           (if Suc i \<le> j \<and> j < task_count ?s1 \<and> state (task_array ?s1 ! j) = READY
            then exec_update (os_time ?s1) (task_array ?s1 ! j) (the (map_of new j))
            else task_array ?s1 ! j)"
        by blast
      have new: "task_count s' = task_count s" "os_time s' = os_time s"
        "length (task_array s') = length (task_array s)" "calls' = (calls @ [(i, r)]) @ new"
        "map fst new = filter (\<lambda>j. state (task_array ?s1 ! j) = READY) [Suc i..<task_count s]"
        "\<forall>j. task_array s' ! j =
           (if Suc i \<le> j \<and> j < task_count s \<and> state (task_array ?s1 ! j) = READY
            then exec_update (os_time s) (task_array ?s1 ! j) (the (map_of new j))
            else task_array ?s1 ! j)"
        using new0 by (simp_all cong: if_cong)
      have filt: "filter (\<lambda>j. state (task_array ?s1 ! j) = READY) [Suc i..<task_count s] =
          filter (\<lambda>j. state (task_array s ! j) = READY) [Suc i..<task_count s]"
        by (rule filter_cong) (auto simp: other)
      have all: "\<forall>j. task_array s' ! j =
           (if i \<le> j \<and> j < task_count s \<and> state (task_array s ! j) = READY
            then exec_update (os_time s) (task_array s ! j) (the (map_of ((i, r) # new) j))
            else task_array s ! j)"
      proof
        fix j
        show "task_array s' ! j =
           (if i \<le> j \<and> j < task_count s \<and> state (task_array s ! j) = READY
            then exec_update (os_time s) (task_array s ! j) (the (map_of ((i, r) # new) j))
            else task_array s ! j)"
        proof (cases "j = i")
          case True
          with new(6) [rule_format, of i] at lt \<open>state (task_array s ! i) = READY\<close> show ?thesis
            by simp
        next
          case False
          with new(6) [rule_format, of j] other [OF False] show ?thesis
            by auto
        qed
      qed
      have "calls' = calls @ ((i, r) # new)"
        using new(4) by simp
      moreover have "map fst ((i, r) # new) =
          filter (\<lambda>j. state (task_array s ! j) = READY) [i..<task_count s]"
        unfolding upt using new(5) filt True by simp
      ultimately show ?thesis
        using new(1-3) all by blast
    qed
  qed
qed

lemma OS_TaskExecution_loop_total:
  assumes "\<forall>j. i \<le> j \<and> j < task_count s \<and> state (task_array s ! j) = READY \<longrightarrow>
             task_function (task_array s ! j) \<noteq> NULL"
  shows "\<exists>s' w' calls'. OS_TaskExecution_loop call s i w calls = Inr (s', w', calls')"
  using assms
proof (induction "task_count s - i" arbitrary: s i w calls)
  case 0
  then show ?case
    by (simp add: OS_TaskExecution_loop_done)
next
  case (Suc n)
  then have lt: "i < task_count s"
    by simp
  show ?case
  proof (cases "state (task_array s ! i) = READY")
    case False
    have "\<exists>s' w' calls'. OS_TaskExecution_loop call s (Suc i) w calls = Inr (s', w', calls')"
      using Suc.hyps(2) Suc.prems by (intro Suc.hyps(1)) auto
    with lt False show ?thesis
      by (simp add: OS_TaskExecution_loop_skip)
  next
    case True
    with Suc.prems lt have code: "task_function (task_array s ! i) \<noteq> NULL"
      by simp
    obtain r w1 where c: "call (task_function (task_array s ! i)) (data_ptr (task_array s ! i)) w = (r, w1)"
      by (cases "call (task_function (task_array s ! i)) (data_ptr (task_array s ! i)) w")
    let ?s1 = "s\<lparr>task_array := (task_array s)[i := exec_update (os_time s) (task_array s ! i) r]\<rparr>"
    have "\<exists>s' w' calls'. OS_TaskExecution_loop call ?s1 (Suc i) w1 (calls @ [(i, r)]) = Inr (s', w', calls')"
      using Suc.hyps(2) Suc.prems by (intro Suc.hyps(1)) auto
    with lt True code c show ?thesis
      by (simp add: OS_TaskExecution_loop_call [where r = r and ?w1.0 = w1])
  qed
qed

lemma OS_TaskExecution_total:
  "ready_tasks_callable s \<Longrightarrow> \<exists>s' w' calls. OS_TaskExecution call s w = Inr (s', w', calls)"
  unfolding OS_TaskExecution_def ready_tasks_callable_iff
  by (rule OS_TaskExecution_loop_total) simp

lemma OS_TaskExecution_spec:
  assumes "sys_ok s" and "OS_TaskExecution call s w = Inr (s', w', calls)"
  shows "task_count s' = task_count s" and "os_time s' = os_time s"
    and "length (task_array s') = length (task_array s)"
    and "map fst calls = filter (\<lambda>j. state (task_array s ! j) = READY) [0..<task_count s]"
    and "task_array s' ! j =
           (if j < task_count s \<and> state (task_array s ! j) = READY
            then exec_update (os_time s) (task_array s ! j) (the (map_of calls j))
            else task_array s ! j)"
proof -
  have len: "task_count s \<le> length (task_array s)"
    using assms(1) by (simp add: sys_ok_def)
  from OS_TaskExecution_loop_spec [OF len assms(2) [unfolded OS_TaskExecution_def]]
  show "task_count s' = task_count s" and "os_time s' = os_time s"
    and "length (task_array s') = length (task_array s)"
    and "map fst calls = filter (\<lambda>j. state (task_array s ! j) = READY) [0..<task_count s]"
    and "task_array s' ! j =
           (if j < task_count s \<and> state (task_array s ! j) = READY
            then exec_update (os_time s) (task_array s ! j) (the (map_of calls j))
            else task_array s ! j)"
    by auto
qed

lemma OS_TaskExecution_calls:
  assumes "sys_ok s" and "OS_TaskExecution call s w = Inr (s', w', calls)"
  shows "distinct (map fst calls)"
    and "set (map fst calls) = {j. j < task_count s \<and> state (task_array s ! j) = READY}"
    and "(j, r) \<in> set calls \<Longrightarrow>
           task_array s' ! j = exec_update (os_time s) (task_array s ! j) r"
proof -
  note m = OS_TaskExecution_spec(4) [OF assms]
  show d: "distinct (map fst calls)"
    unfolding m by simp
  show st: "set (map fst calls) = {j. j < task_count s \<and> state (task_array s ! j) = READY}"
    unfolding m by auto
  assume jr: "(j, r) \<in> set calls"
  then have "map_of calls j = Some r"
    using d by simp
  moreover from jr have "j \<in> set (map fst calls)"
    by force
  ultimately show "task_array s' ! j = exec_update (os_time s) (task_array s ! j) r"
    using OS_TaskExecution_spec(5) [OF assms, of j] st by simp
qed

lemma exec_update_fields:
  "task_function (exec_update now t r) = task_function t"
  "data_ptr (exec_update now t r) = data_ptr t"
  "task_period (exec_update now t r) = r"
  "execute_time (exec_update now t r) = (if r \<noteq> task_period t then now + r else execute_time t)"
  "state (exec_update now t r) = (if r = period_end then STOPPED else BLOCKED)"
  by (simp_all add: exec_update_def Let_def)

lemma exec_one_ready:
  "task_function t \<noteq> NULL \<Longrightarrow> state t = READY \<Longrightarrow> call (task_function t) (data_ptr t) w = (r, w1) \<Longrightarrow>
   OS_TaskExecution call (one_task t now) w = Inr (one_task (exec_update now t r) now, w1, [(0, r)])"
  unfolding OS_TaskExecution_def
  apply (subst OS_TaskExecution_loop_call [where r = r and ?w1.0 = w1])
      apply (simp_all add: one_task_def OS_MAX_TASK_NUM_def)
  apply (simp add: OS_TaskExecution_loop_done)
  done

lemma ready_tasks_callable_one_task:
  "ready_tasks_callable (one_task t now) \<longleftrightarrow> (state t = READY \<longrightarrow> task_function t \<noteq> NULL)"
  by (simp add: ready_tasks_callable_iff one_task_def OS_MAX_TASK_NUM_def)

subsection \<open>What the passes preserve\<close>

lemma timer_task_suspended: "state t = SUSPENDED \<Longrightarrow> timer_task now t = t"
  by (simp add: timer_task_def)

lemma timer_task_code:
  "state (timer_task now t) = BLOCKED \<or> state (timer_task now t) = READY \<Longrightarrow>
   (state t = BLOCKED \<or> state t = READY) \<and> task_function (timer_task now t) = task_function t"
  by (cases "state t") (auto simp: timer_task_def split: if_splits)

lemma sys_ok_OS_TaskTimer: "sys_ok s \<Longrightarrow> sys_ok (OS_TaskTimer s)"
  by (simp add: sys_ok_def OS_TaskTimer_length OS_TaskTimer_task_count)

lemma runnable_OS_TaskTimer:
  assumes "sys_ok s" and "runnable_tasks_callable s"
  shows "runnable_tasks_callable (OS_TaskTimer s)"
  unfolding runnable_tasks_callable_iff
proof (intro allI impI)
  fix j
  assume j: "j < task_count (OS_TaskTimer s)"
    and st: "state (task_array (OS_TaskTimer s) ! j) = BLOCKED \<or>
             state (task_array (OS_TaskTimer s) ! j) = READY"
  have lt: "j < task_count s"
    using j by (simp add: OS_TaskTimer_task_count)
  have nth: "task_array (OS_TaskTimer s) ! j = timer_task (os_time s + 1) (task_array s ! j)"
    using assms(1) lt by (simp add: OS_TaskTimer_nth sys_ok_def)
  from timer_task_code [OF st [unfolded nth]] assms(2) lt
  show "task_function (task_array (OS_TaskTimer s) ! j) \<noteq> NULL"
    unfolding nth by (auto simp: runnable_tasks_callable_iff)
qed

lemma runnable_imp_ready: "runnable_tasks_callable s \<Longrightarrow> ready_tasks_callable s"
  by (simp add: runnable_tasks_callable_iff ready_tasks_callable_iff)

lemma sys_ok_OS_TaskExecution:
  "sys_ok s \<Longrightarrow> OS_TaskExecution call s w = Inr (s', w', calls) \<Longrightarrow> sys_ok s'"
  using OS_TaskExecution_spec(1,3) [of s call w s' w' calls] by (simp add: sys_ok_def)

lemma runnable_OS_TaskExecution:
  assumes "sys_ok s" and "runnable_tasks_callable s"
    and "OS_TaskExecution call s w = Inr (s', w', calls)"
  shows "runnable_tasks_callable s'"
  unfolding runnable_tasks_callable_iff
proof (intro allI impI)
  fix j
  assume j: "j < task_count s'"
    and st: "state (task_array s' ! j) = BLOCKED \<or> state (task_array s' ! j) = READY"
  have lt: "j < task_count s"
    using j OS_TaskExecution_spec(1) [OF assms(1,3)] by simp
  show "task_function (task_array s' ! j) \<noteq> NULL"
  proof (cases "state (task_array s ! j) = READY")
    case True
    with assms(2) lt have "task_function (task_array s ! j) \<noteq> NULL"
      by (simp add: runnable_tasks_callable_iff)
    with OS_TaskExecution_spec(5) [OF assms(1,3), of j] lt True show ?thesis
      by (simp add: exec_update_fields)
  next
    case False
    with OS_TaskExecution_spec(5) [OF assms(1,3), of j] have "task_array s' ! j = task_array s ! j"
      by simp
    with st assms(2) lt show ?thesis
      by (auto simp: runnable_tasks_callable_iff)
  qed
qed

lemma run_passes_suspended:
  assumes "sys_ok s" and "runnable_tasks_callable s" and "i < task_count s"
    and "state (task_array s ! i) = SUSPENDED"
  shows "\<exists>s' w' calls. run_passes call ps s w = Inr (s', w', calls) \<and>
           task_array s' ! i = task_array s ! i \<and> i \<notin> fst ` set calls"
  using assms
proof (induction ps arbitrary: s w)
  case Nil
  then show ?case
    by simp
next
  case (Cons p ps)
  show ?case
  proof (cases p)
    case TimerPass
    let ?s1 = "OS_TaskTimer s"
    have nth: "task_array ?s1 ! i = task_array s ! i"
      using Cons.prems by (simp add: OS_TaskTimer_nth sys_ok_def timer_task_suspended)
    have "\<exists>s' w' calls. run_passes call ps ?s1 w = Inr (s', w', calls) \<and>
           task_array s' ! i = task_array ?s1 ! i \<and> i \<notin> fst ` set calls"
      using Cons.prems nth
      by (intro Cons.IH sys_ok_OS_TaskTimer runnable_OS_TaskTimer)
         (simp_all add: OS_TaskTimer_task_count)
    with TimerPass nth show ?thesis
      by simp
  next
    case ExecutionPass
    from OS_TaskExecution_total [OF runnable_imp_ready [OF Cons.prems(2)], of call w]
    obtain s1 w1 calls1 where run: "OS_TaskExecution call s w = Inr (s1, w1, calls1)"
      by blast
    have nth: "task_array s1 ! i = task_array s ! i"
      using OS_TaskExecution_spec(5) [OF Cons.prems(1) run, of i] Cons.prems(4) by simp
    have notin: "i \<notin> fst ` set calls1"
      using OS_TaskExecution_calls(2) [OF Cons.prems(1) run] Cons.prems(4) by auto
    have "\<exists>s' w' calls. run_passes call ps s1 w1 = Inr (s', w', calls) \<and>
           task_array s' ! i = task_array s1 ! i \<and> i \<notin> fst ` set calls"
      using Cons.prems nth run OS_TaskExecution_spec(1) [OF Cons.prems(1) run]
      by (intro Cons.IH sys_ok_OS_TaskExecution [OF _ run] runnable_OS_TaskExecution [OF _ _ run])
         simp_all
    with ExecutionPass run nth notin show ?thesis
      by auto
  qed
qed

lemma ticks_suspended:
  "sys_ok s \<Longrightarrow> i < task_count s \<Longrightarrow> state (task_array s ! i) = SUSPENDED \<Longrightarrow>
   task_array (ticks n s) ! i = task_array s ! i"
proof (induction n arbitrary: s)
  case 0
  show ?case
    by simp
next
  case (Suc n)
  have nth: "task_array (OS_TaskTimer s) ! i = task_array s ! i"
    using Suc.prems by (simp add: OS_TaskTimer_nth sys_ok_def timer_task_suspended)
  have "task_array (ticks n (OS_TaskTimer s)) ! i = task_array (OS_TaskTimer s) ! i"
    using Suc.prems nth
    by (intro Suc.IH sys_ok_OS_TaskTimer) (simp_all add: OS_TaskTimer_task_count)
  with nth show ?case
    by simp
qed

lemma run_passes_suspended_result:
  "sys_ok s \<Longrightarrow> i < task_count s \<Longrightarrow> state (task_array s ! i) = SUSPENDED \<Longrightarrow>
   run_passes call ps s w = Inr (s', w', calls) \<Longrightarrow>
   task_array s' ! i = task_array s ! i \<and> i \<notin> fst ` set calls"
proof (induction ps arbitrary: s w calls)
  case Nil
  then show ?case
    by auto
next
  case (Cons p ps)
  show ?case
  proof (cases p)
    case TimerPass
    let ?s1 = "OS_TaskTimer s"
    have nth: "task_array ?s1 ! i = task_array s ! i"
      using Cons.prems by (simp add: OS_TaskTimer_nth sys_ok_def timer_task_suspended)
    have run: "run_passes call ps ?s1 w = Inr (s', w', calls)"
      using Cons.prems(4) TimerPass by simp
    have "task_array s' ! i = task_array ?s1 ! i \<and> i \<notin> fst ` set calls"
      using Cons.prems(1-3) nth run
      by (intro Cons.IH [of ?s1 w calls] sys_ok_OS_TaskTimer)
         (simp_all add: OS_TaskTimer_task_count)
    with nth show ?thesis
      by simp
  next
    case ExecutionPass
    from Cons.prems(4) ExecutionPass obtain s1 w1 calls1 calls2 where
      exec: "OS_TaskExecution call s w = Inr (s1, w1, calls1)"
      and rest: "run_passes call ps s1 w1 = Inr (s', w', calls2)"
      and calls: "calls = calls1 @ calls2"
      by (auto split: sum.splits prod.splits)
    have nth: "task_array s1 ! i = task_array s ! i"
      using OS_TaskExecution_spec(5) [OF Cons.prems(1) exec, of i] Cons.prems(3) by simp
    have notin: "i \<notin> fst ` set calls1"
      using OS_TaskExecution_calls(2) [OF Cons.prems(1) exec] Cons.prems(3) by auto
    have "task_array s' ! i = task_array s1 ! i \<and> i \<notin> fst ` set calls2"
      using Cons.prems(2,3) nth rest OS_TaskExecution_spec(1) [OF Cons.prems(1) exec]
      by (intro Cons.IH [of s1 w1 calls2] sys_ok_OS_TaskExecution [OF Cons.prems(1) exec])
         simp_all
    with nth notin calls show ?thesis
      by auto
  qed
qed

subsection \<open>The setters of period and execute time\<close>

lemma state_update_other_field:
  "state ((xs[k := (xs ! k)\<lparr>task_period := p\<rparr>]) ! i) = state (xs ! i)"
  "state ((xs[k := (xs ! k)\<lparr>execute_time := e\<rparr>]) ! i) = state (xs ! i)"
proof -
  have upd: "state ((xs[k := x]) ! i) = state (xs ! i)" if "state x = state (xs ! k)" for x
  proof (cases "k < length xs")
    case True
    with that show ?thesis
      by (cases "i = k") simp_all
  next
    case False
    then have "xs[k := x] = xs"
      by (intro list_update_beyond) simp
    then show ?thesis
      by simp
  qed
  show "state ((xs[k := (xs ! k)\<lparr>task_period := p\<rparr>]) ! i) = state (xs ! i)"
    by (rule upd) simp
  show "state ((xs[k := (xs ! k)\<lparr>execute_time := e\<rparr>]) ! i) = state (xs ! i)"
    by (rule upd) simp
qed

lemma OS_SetTaskPeriod_state:
  "state (task_array (snd (OS_SetTaskPeriod f p s)) ! i) = state (task_array s ! i)"
  by (simp add: OS_SetTaskPeriod_def Let_def state_update_other_field)

lemma OS_SetTaskExecuteTime_state:
  "state (task_array (snd (OS_SetTaskExecuteTime f e s)) ! i) = state (task_array s ! i)"
  by (simp add: OS_SetTaskExecuteTime_def Let_def state_update_other_field)

subsection \<open>Registrations at the tail\<close>

lemma OS_struct_overwrite:
  "(t :: OS_struct)\<lparr>task_function := f, task_period := p, state := st,
      execute_time := e, data_ptr := d\<rparr> =
   \<lparr>task_function = f, task_period = p, execute_time = e, state = st, data_ptr = d\<rparr>"
  by (cases t) simp

lemma OS_TaskCreate_at_tail:
  assumes len: "length (task_array s) = OS_MAX_TASK_NUM"
    and cnt: "task_count s < OS_MAX_TASK_NUM"
    and used: "\<forall>j<task_count s. task_function (task_array s ! j) \<noteq> NULL \<and>
                 task_function (task_array s ! j) \<noteq> f"
    and tail: "task_function (task_array s ! task_count s) = NULL"
    and per: "OS_MIN_TIME \<le> p" "p \<le> OS_MAX_TIME"
  shows "OS_TaskCreate f p st d defer_time s =
    (OK, s\<lparr>task_count := task_count s + 1,
           task_array := (task_array s)[task_count s :=
             \<lparr>task_function = f, task_period = p, execute_time = os_time s + defer_time,
              state = st, data_ptr = d\<rparr>]\<rparr>)"
proof -
  have find: "OS_TaskFind s f = OS_MAX_TASK_NUM + 1"
    unfolding OS_TaskFind_def using used by (intro OS_TaskFind_loop_none) simp
  have ins: "OS_TaskInsertPosition s = (task_count s, s\<lparr>task_count := task_count s + 1\<rparr>)"
    unfolding OS_TaskInsertPosition_def
    using OS_TaskInsertPosition_loop_at [of 0 "task_count s" s] used tail by simp
  show ?thesis
    using per cnt
    by (simp add: OS_TaskCreate_def find ins not_less [symmetric] OS_struct_overwrite)
qed

lemma OS_TaskCreate_full:
  "OS_MIN_TIME \<le> p \<Longrightarrow> p \<le> OS_MAX_TIME \<Longrightarrow> OS_MAX_TASK_NUM \<le> task_count s \<Longrightarrow>
   OS_TaskCreate f p st d defer_time s = (NOK_CNT_LIMIT, s)"
  by (simp add: OS_TaskCreate_def not_less [symmetric])

lemma create_all_fresh:
  assumes "length (task_array s) = OS_MAX_TASK_NUM"
    and "task_count s + length rs \<le> OS_MAX_TASK_NUM"
    and "\<forall>j<task_count s. task_function (task_array s ! j) \<noteq> NULL \<and>
           task_function (task_array s ! j) \<notin> set (map fst rs)"
    and "\<forall>j. task_count s \<le> j \<and> j < OS_MAX_TASK_NUM \<longrightarrow> task_function (task_array s ! j) = NULL"
    and "distinct (map fst rs)" and "NULL \<notin> set (map fst rs)"
    and "\<forall>r\<in>set rs. OS_MIN_TIME \<le> fst (snd r) \<and> fst (snd r) \<le> OS_MAX_TIME"
  shows "create_all rs s =
    (replicate (length rs) OK,
     s\<lparr>task_count := task_count s + length rs,
       task_array := take (task_count s) (task_array s) @ map (new_task (os_time s)) rs @
                     drop (task_count s + length rs) (task_array s)\<rparr>)"
  using assms
proof (induction rs arbitrary: s)
  case Nil
  then show ?case
    by simp
next
  case (Cons r rs)
  obtain f p st d defer_time where r: "r = (f, p, st, d, defer_time)"
    by (cases r)
  let ?k = "task_count s"
  let ?s1 = "s\<lparr>task_count := Suc ?k,
           task_array := (task_array s)[?k :=
             \<lparr>task_function = f, task_period = p, execute_time = os_time s + defer_time,
              state = st, data_ptr = d\<rparr>]\<rparr>"
  have k: "?k < OS_MAX_TASK_NUM"
    using Cons.prems(2) by simp
  have "OS_TaskCreate f p st d defer_time s =
    (OK, s\<lparr>task_count := ?k + 1,
           task_array := (task_array s)[?k :=
             \<lparr>task_function = f, task_period = p, execute_time = os_time s + defer_time,
              state = st, data_ptr = d\<rparr>]\<rparr>)"
    using Cons.prems k unfolding r
    by (intro OS_TaskCreate_at_tail) auto
  then have create: "OS_TaskCreate f p st d defer_time s = (OK, ?s1)"
    by simp
  have f: "f \<noteq> NULL" "f \<notin> set (map fst rs)"
    using Cons.prems(5,6) unfolding r by auto
  have nth: "task_array ?s1 ! j = (if j = ?k then \<lparr>task_function = f, task_period = p,
      execute_time = os_time s + defer_time, state = st, data_ptr = d\<rparr> else task_array s ! j)" for j
    using k Cons.prems(1) by (simp add: nth_list_update)
  have ih: "create_all rs ?s1 =
    (replicate (length rs) OK,
     ?s1\<lparr>task_count := task_count ?s1 + length rs,
       task_array := take (task_count ?s1) (task_array ?s1) @ map (new_task (os_time ?s1)) rs @
                     drop (task_count ?s1 + length rs) (task_array ?s1)\<rparr>)"
  proof (rule Cons.IH)
    show "length (task_array ?s1) = OS_MAX_TASK_NUM"
      using Cons.prems(1) by simp
    show "task_count ?s1 + length rs \<le> OS_MAX_TASK_NUM"
      using Cons.prems(2) by simp
    show "\<forall>j<task_count ?s1. task_function (task_array ?s1 ! j) \<noteq> NULL \<and>
           task_function (task_array ?s1 ! j) \<notin> set (map fst rs)"
      using Cons.prems(3) f unfolding nth by (auto simp: less_Suc_eq)
    show "\<forall>j. task_count ?s1 \<le> j \<and> j < OS_MAX_TASK_NUM \<longrightarrow>
           task_function (task_array ?s1 ! j) = NULL"
      using Cons.prems(4) unfolding nth by auto
    show "distinct (map fst rs)" "NULL \<notin> set (map fst rs)"
      "\<forall>r\<in>set rs. OS_MIN_TIME \<le> fst (snd r) \<and> fst (snd r) \<le> OS_MAX_TIME"
      using Cons.prems(5-7) by auto
  qed
  have upd: "(task_array s)[?k := x] = take ?k (task_array s) @ x # drop (Suc ?k) (task_array s)" for x
    using k Cons.prems(1) by (simp add: upd_conv_take_nth_drop)
  have tk: "take (Suc ?k) ((task_array s)[?k := x]) = take ?k (task_array s) @ [x]" for x
    using k Cons.prems(1) unfolding upd by simp
  have dr: "drop (Suc (?k + length rs)) ((task_array s)[?k := x]) =
      drop (Suc (?k + length rs)) (task_array s)" for x
    using k Cons.prems(1) by simp
  have ih': "create_all rs ?s1 =
    (replicate (length rs) OK,
     s\<lparr>task_count := Suc (?k + length rs),
       task_array := take ?k (task_array s) @
         \<lparr>task_function = f, task_period = p, execute_time = os_time s + defer_time,
          state = st, data_ptr = d\<rparr> #
         map (new_task (os_time s)) rs @ drop (Suc (?k + length rs)) (task_array s)\<rparr>)"
    unfolding ih by (simp add: tk dr)
  show ?case
    unfolding r by (simp add: create ih')
qed

lemma create_all_from_empty:
  assumes "length rs = OS_MAX_TASK_NUM" and "distinct (map fst rs)" and "NULL \<notin> set (map fst rs)"
    and "\<forall>r\<in>set rs. OS_MIN_TIME \<le> fst (snd r) \<and> fst (snd r) \<le> OS_MAX_TIME"
  shows "create_all rs (OS_init\<lparr>os_time := T\<rparr>) =
    (replicate OS_MAX_TASK_NUM OK,
     \<lparr>task_array = map (new_task T) rs, task_count = OS_MAX_TASK_NUM, os_time = T\<rparr>)"
proof -
  let ?s0 = "OS_init\<lparr>os_time := T\<rparr>"
  have "create_all rs ?s0 =
    (replicate (length rs) OK,
     ?s0\<lparr>task_count := task_count ?s0 + length rs,
       task_array := take (task_count ?s0) (task_array ?s0) @ map (new_task (os_time ?s0)) rs @
                     drop (task_count ?s0 + length rs) (task_array ?s0)\<rparr>)"
    using assms
    by (intro create_all_fresh) (simp_all add: OS_init_def zero_task_def)
  then show ?thesis
    using assms(1) by (simp add: OS_init_def)
qed

lemma full_requests_ok:
  "length full_requests = OS_MAX_TASK_NUM" "distinct (map fst full_requests)"
  "NULL \<notin> set (map fst full_requests)"
  "\<forall>r\<in>set full_requests. OS_MIN_TIME \<le> fst (snd r) \<and> fst (snd r) \<le> OS_MAX_TIME"
  by (simp_all add: full_requests_def NULL_def OS_MIN_TIME_def OS_MAX_TIME_def period_1ms_def
      comp_def distinct_map inj_on_def)

lemma full_table_eq:
  "full_table = \<lparr>task_array = map (new_task 0) full_requests, task_count = OS_MAX_TASK_NUM,
     os_time = 0\<rparr>"
proof -
  have "OS_init\<lparr>os_time := 0\<rparr> = OS_init"
    by (simp add: OS_init_def)
  with create_all_from_empty [OF full_requests_ok, of 0] show ?thesis
    by (simp add: full_table_def)
qed

subsection \<open>The values the execution pass records\<close>

lemma OS_TaskExecution_loop_returns:
  assumes "task_count s \<le> length (task_array s)"
    and "OS_TaskExecution_loop call s i w calls = Inr (s', w', calls')"
    and "(j, r) \<in> set calls'"
  shows "(j, r) \<in> set calls \<or>
         (\<exists>w0 w1. call (task_function (task_array s ! j)) (data_ptr (task_array s ! j)) w0 = (r, w1))"
  using assms
proof (induction "task_count s - i" arbitrary: s i w calls)
  case 0
  then show ?case
    by (simp add: OS_TaskExecution_loop_done)
next
  case (Suc n)
  then have lt: "i < task_count s"
    by simp
  show ?case
  proof (cases "state (task_array s ! i) = READY")
    case False
    have n: "n = task_count s - Suc i"
      using Suc.hyps(2) by simp
    have run: "OS_TaskExecution_loop call s (Suc i) w calls = Inr (s', w', calls')"
      using Suc.prems(2) lt False by (simp add: OS_TaskExecution_loop_skip)
    from Suc.hyps(1) [OF n Suc.prems(1) run Suc.prems(3)] show ?thesis .
  next
    case True
    show ?thesis
    proof (cases "task_function (task_array s ! i) = NULL")
      case null: True
      with Suc.prems(2) lt True show ?thesis
        by (simp add: OS_TaskExecution_loop_null)
    next
      case code: False
      obtain r0 w1 where c: "call (task_function (task_array s ! i)) (data_ptr (task_array s ! i)) w = (r0, w1)"
        by (cases "call (task_function (task_array s ! i)) (data_ptr (task_array s ! i)) w")
      let ?s1 = "s\<lparr>task_array := (task_array s)[i := exec_update (os_time s) (task_array s ! i) r0]\<rparr>"
      have n: "n = task_count ?s1 - Suc i"
        using Suc.hyps(2) by simp
      have len: "task_count ?s1 \<le> length (task_array ?s1)"
        using Suc.prems(1) by simp
      have run: "OS_TaskExecution_loop call ?s1 (Suc i) w1 (calls @ [(i, r0)]) = Inr (s', w', calls')"
        using Suc.prems(2) lt True code c
        by (simp add: OS_TaskExecution_loop_call [where r = r0 and ?w1.0 = w1])
      have same: "task_function (task_array ?s1 ! j) = task_function (task_array s ! j)"
        "data_ptr (task_array ?s1 ! j) = data_ptr (task_array s ! j)"
        using lt Suc.prems(1) by (cases "j = i"; simp add: exec_update_fields)+
      from Suc.hyps(1) [OF n len run Suc.prems(3)]
      have "(j, r) \<in> set (calls @ [(i, r0)]) \<or>
         (\<exists>w0 w1. call (task_function (task_array s ! j)) (data_ptr (task_array s ! j)) w0 = (r, w1))"
        unfolding same .
      with c show ?thesis
        by auto
    qed
  qed
qed

lemma OS_TaskExecution_returns:
  assumes "sys_ok s" and "OS_TaskExecution call s w = Inr (s', w', calls)"
    and "(j, r) \<in> set calls"
  shows "\<exists>w0 w1. call (task_function (task_array s ! j)) (data_ptr (task_array s ! j)) w0 = (r, w1)"
proof -
  have len: "task_count s \<le> length (task_array s)"
    using assms(1) by (simp add: sys_ok_def)
  from OS_TaskExecution_loop_returns [OF len assms(2) [unfolded OS_TaskExecution_def] assms(3)]
  show ?thesis
    by simp
qed

subsection \<open>Re-registration and the reuse of a freed position, below the limit\<close>

lemma OS_TaskCreate_existing:
  assumes "OS_MIN_TIME \<le> p" and "p \<le> OS_MAX_TIME" and "task_count s < OS_MAX_TASK_NUM"
    and "k < task_count s" and "task_function (task_array s ! k) = f"
    and "\<forall>j<k. task_function (task_array s ! j) \<noteq> f"
  shows "OS_TaskCreate f p st d defer_time s =
    (OK, s\<lparr>task_array := (task_array s)[k :=
       (task_array s ! k)\<lparr>task_period := p, state := st,
          execute_time := os_time s + defer_time, data_ptr := d\<rparr>]\<rparr>)"
proof -
  have find: "OS_TaskFind s f = k"
    unfolding OS_TaskFind_def using assms(4-6) by (intro OS_TaskFind_loop_found) simp_all
  show ?thesis
    using assms(1-4) by (simp add: OS_TaskCreate_def find not_less [symmetric])
qed

lemma OS_TaskCreate_free_slot:
  assumes "OS_MIN_TIME \<le> p" and "p \<le> OS_MAX_TIME" and "task_count s < OS_MAX_TASK_NUM"
    and "\<forall>j<task_count s. task_function (task_array s ! j) \<noteq> f"
    and "k < task_count s" and "task_function (task_array s ! k) = NULL"
    and "\<forall>j<k. task_function (task_array s ! j) \<noteq> NULL"
  shows "OS_TaskCreate f p st d defer_time s =
    (OK, s\<lparr>task_array := (task_array s)[k :=
       \<lparr>task_function = f, task_period = p, execute_time = os_time s + defer_time,
        state = st, data_ptr = d\<rparr>]\<rparr>)"
proof -
  have find: "OS_TaskFind s f = OS_MAX_TASK_NUM + 1"
    unfolding OS_TaskFind_def using assms(4) by (intro OS_TaskFind_loop_none) simp
  have ins: "OS_TaskInsertPosition s = (k, s)"
    unfolding OS_TaskInsertPosition_def
    using OS_TaskInsertPosition_loop_at [of 0 k s] assms(5-7) by simp
  show ?thesis
    using assms(1-3)
    by (simp add: OS_TaskCreate_def find ins not_less [symmetric] OS_struct_overwrite)
qed

subsection \<open>The full table\<close>

lemma full_table_nth:
  "j < OS_MAX_TASK_NUM \<Longrightarrow> task_array full_table ! j =
     \<lparr>task_function = Suc j, task_period = period_1ms, execute_time = 0,
      state = BLOCKED, data_ptr = NULL\<rparr>"
  by (simp add: full_table_eq full_requests_def)

lemma full_table_sys:
  "task_count full_table = OS_MAX_TASK_NUM" "os_time full_table = 0"
  "length (task_array full_table) = OS_MAX_TASK_NUM" "sys_ok full_table"
  by (simp_all add: full_table_eq full_requests_def sys_ok_def)

lemma timer_task_function:
  "task_function (timer_task now t) = (if state t = STOPPED then NULL else task_function t)"
  by (cases "state t") (simp_all add: timer_task_def)

subsection \<open>The table with a single used position\<close>

lemma OS_TaskTimer_one_task:
  "OS_TaskTimer (one_task t now) = one_task (timer_task (now + 1) t) (now + 1)"
  by (simp add: OS_TaskTimer_def OS_TaskTimer_loop.simps [of _ 0] OS_TaskTimer_loop.simps [of _ "Suc 0"]
      one_task_def period_1ms_def OS_MAX_TASK_NUM_def)

lemma OS_TaskFind_one_task: "OS_TaskFind (one_task t now) (task_function t) = 0"
  unfolding OS_TaskFind_def
  by (rule OS_TaskFind_loop_found) (simp_all add: one_task_def OS_MAX_TASK_NUM_def)

lemma one_task_getters:
  "OS_TaskIsInQueue (one_task t now) (task_function t)"
  "OS_GetTaskState (one_task t now) (task_function t) = state t"
  "OS_GetTaskPeriod (one_task t now) (task_function t) = task_period t"
  "OS_GetTaskExecuteTime (one_task t now) (task_function t) = execute_time t"
  "OS_GetOsTime (one_task t now) = now"
  by (simp_all add: OS_TaskIsInQueue_def OS_GetTaskState_def OS_GetTaskPeriod_def
      OS_GetTaskExecuteTime_def OS_GetOsTime_def OS_TaskFind_one_task one_task_nth0)
     (simp_all add: OS_MAX_TASK_NUM_def one_task_def)

lemma OS_init_time0: "OS_init\<lparr>os_time := 0\<rparr> = OS_init"
  by (simp add: OS_init_def)

lemma OS_TaskFind_loop_some:
  "i \<le> k \<Longrightarrow> k < task_count s \<Longrightarrow> task_function (task_array s ! k) = f \<Longrightarrow>
   OS_TaskFind_loop s f i \<le> k"
proof (induction s f i rule: OS_TaskFind_loop.induct)
  case (1 s f i)
  have lt: "i < task_count s"
    using "1.prems" by simp
  show ?case
  proof (cases "task_function (task_array s ! i) = f")
    case True
    with lt "1.prems"(1) show ?thesis
      by (subst OS_TaskFind_loop.simps) simp
  next
    case False
    with "1.prems" have ik: "Suc i \<le> k"
      by (metis Suc_leI le_neq_implies_less)
    have "OS_TaskFind_loop s f (Suc i) \<le> k"
      using "1.IH" [OF lt False ik] "1.prems" by simp
    with lt False show ?thesis
      by (subst OS_TaskFind_loop.simps) simp
  qed
qed

lemma OS_TaskFind_some:
  "k < task_count s \<Longrightarrow> task_function (task_array s ! k) = f \<Longrightarrow> OS_TaskFind s f \<le> k"
  unfolding OS_TaskFind_def by (rule OS_TaskFind_loop_some) simp_all

subsection \<open>Ticks on the table with a single task\<close>

lemma word32_ten_times_not_max: "(word_of_nat (10 * k) :: 32 word) \<noteq> - 1"
proof
  assume eq: "(word_of_nat (10 * k) :: 32 word) = - 1"
  have "even (word_of_nat (10 * k) :: 32 word)"
    by simp
  then have "even (- 1 :: 32 word)"
    unfolding eq .
  then show False
    by simp
qed

lemma timer_task_ready: "state t = READY \<Longrightarrow> timer_task now t = t"
  by (simp add: timer_task_def)

lemma ticks_one_task_ready:
  "state t = READY \<Longrightarrow> ticks n (one_task t now) = one_task t (now + of_nat n)"
  by (induction n arbitrary: now)
     (simp_all add: OS_TaskTimer_one_task timer_task_ready ac_simps)

lemma ticks_one_task_blocked:
  assumes "state t = BLOCKED" and "execute_time t \<le> now + 1"
  shows "ticks (Suc n) (one_task t now) =
    one_task (t\<lparr>execute_time := execute_time t + task_period t, state := READY\<rparr>)
      (now + of_nat (Suc n))"
proof -
  have "OS_TaskTimer (one_task t now) =
      one_task (t\<lparr>execute_time := execute_time t + task_period t, state := READY\<rparr>) (now + 1)"
    using assms by (simp add: OS_TaskTimer_one_task timer_task_def period_1ms_def)
  then show ?thesis
    by (simp add: ticks_one_task_ready ac_simps)
qed

subsection \<open>The periodic scenario, step by step\<close>

lemma period_10ms_valid: "period_10ms = 10" "OS_MIN_TIME \<le> period_10ms" "period_10ms \<le> OS_MAX_TIME"
  by (simp_all add: period_10ms_def period_1ms_def OS_MIN_TIME_def OS_MAX_TIME_def)

lemma scenario_start_eq:
  "scenario_start A ctx = one_task \<lparr>task_function = A, task_period = 10, execute_time = 0,
      state = BLOCKED, data_ptr = ctx\<rparr> 0"
  using OS_TaskCreate_first [OF period_10ms_valid(2,3), of A BLOCKED ctx 0 0]
  by (simp add: scenario_start_def OS_init_time0 period_10ms_valid(1))

lemma scenario_first_ticks:
  "ticks (Suc n) (scenario_start A ctx) =
     one_task \<lparr>task_function = A, task_period = 10, execute_time = 10,
       state = READY, data_ptr = ctx\<rparr> (of_nat (Suc n))"
  unfolding scenario_start_eq
  by (subst ticks_one_task_blocked) simp_all

lemma scenario_exec:
  assumes "A \<noteq> NULL" and "call A ctx w = (10, w1)"
  shows "OS_TaskExecution call (one_task \<lparr>task_function = A, task_period = 10,
      execute_time = d, state = READY, data_ptr = ctx\<rparr> now) w =
    Inr (one_task \<lparr>task_function = A, task_period = 10, execute_time = d,
      state = BLOCKED, data_ptr = ctx\<rparr> now, w1, [(0, 10)])"
proof -
  let ?t = "\<lparr>task_function = A, task_period = 10, execute_time = d, state = READY,
      data_ptr = ctx\<rparr>"
  have "OS_TaskExecution call (one_task ?t now) w =
      Inr (one_task (exec_update now ?t 10) now, w1, [(0, 10)])"
    using assms by (intro exec_one_ready) simp_all
  then show ?thesis
    by (simp add: exec_update_def period_end_def)
qed

lemma scenario_next_ticks:
  "ticks (Suc n) (one_task \<lparr>task_function = A, task_period = 10,
      execute_time = of_nat (10 * k), state = BLOCKED, data_ptr = ctx\<rparr> (of_nat (10 * k))) =
   one_task \<lparr>task_function = A, task_period = 10, execute_time = of_nat (10 * (k + 1)),
      state = READY, data_ptr = ctx\<rparr> (of_nat (10 * k + Suc n))"
proof -
  have "(word_of_nat (10 * k) :: 32 word) \<le> word_of_nat (10 * k) + 1"
    by (rule word32_le_succ) (simp, rule word32_ten_times_not_max)
  then show ?thesis
    by (subst ticks_one_task_blocked) (simp_all add: ac_simps)
qed

lemma cycles_scenario:
  assumes "A \<noteq> NULL" and "\<forall>w. fst (call A ctx w) = 10"
  shows "\<exists>w'. cycles call k (one_task \<lparr>task_function = A, task_period = 10,
      execute_time = of_nat (10 * j), state = READY, data_ptr = ctx\<rparr> (of_nat (10 * j))) w =
    Inr (one_task \<lparr>task_function = A, task_period = 10, execute_time = of_nat (10 * (j + k)),
      state = READY, data_ptr = ctx\<rparr> (of_nat (10 * (j + k))), w')"
proof (induction k arbitrary: j w)
  case 0
  show ?case
    by simp
next
  case (Suc k)
  obtain w1 where c: "call A ctx w = (10, w1)"
    using assms(2) by (cases "call A ctx w") (metis fst_conv)
  have tick: "ticks 10 (one_task \<lparr>task_function = A, task_period = 10,
      execute_time = of_nat (10 * j), state = BLOCKED, data_ptr = ctx\<rparr> (of_nat (10 * j))) =
    one_task \<lparr>task_function = A, task_period = 10, execute_time = of_nat (10 * (j + 1)),
      state = READY, data_ptr = ctx\<rparr> (of_nat (10 * (j + 1)))"
    using scenario_next_ticks [of 9 A j ctx] by (simp add: eval_nat_numeral)
  from Suc.IH [of "j + 1" w1] obtain w' where
    "cycles call k (one_task \<lparr>task_function = A, task_period = 10,
      execute_time = of_nat (10 * (j + 1)), state = READY, data_ptr = ctx\<rparr>
        (of_nat (10 * (j + 1)))) w1 =
    Inr (one_task \<lparr>task_function = A, task_period = 10, execute_time = of_nat (10 * (j + 1 + k)),
      state = READY, data_ptr = ctx\<rparr> (of_nat (10 * (j + 1 + k))), w')"
    by blast
  moreover have "OS_TaskExecution call (one_task \<lparr>task_function = A, task_period = 10,
      execute_time = of_nat (10 * j), state = READY, data_ptr = ctx\<rparr> (of_nat (10 * j))) w =
    Inr (one_task \<lparr>task_function = A, task_period = 10, execute_time = of_nat (10 * j),
      state = BLOCKED, data_ptr = ctx\<rparr> (of_nat (10 * j)), w1, [(0, 10)])"
    using assms(1) c by (rule scenario_exec)
  ultimately show ?case
    by (simp only: cycles.simps sum.case prod.case tick) (simp add: ac_simps)
qed

lemma one_task_getters_rec:
  "OS_GetTaskState (one_task \<lparr>task_function = A, task_period = p, execute_time = d,
      state = st, data_ptr = c\<rparr> now) A = st"
  "OS_GetTaskExecuteTime (one_task \<lparr>task_function = A, task_period = p, execute_time = d,
      state = st, data_ptr = c\<rparr> now) A = d"
  using one_task_getters(2,4) [of "\<lparr>task_function = A, task_period = p, execute_time = d,
      state = st, data_ptr = c\<rparr>" now]
  by simp_all

section \<open>C1: registering a task that is already registered\<close>

text \<open>
  C1 at the input where the code departs from it. In \<open>full_table\<close> task 1 is
  registered and the tail index is \<open>OS_MAX_TASK_NUM\<close>. Registering task 1 again, with a
  valid period, returns \<open>NOK_CNT_LIMIT\<close> and changes nothing: the check of the tail index
  comes before the lookup. Below the limit the same call overwrites the element in place
  (\<open>OS_TaskCreate_existing\<close>).
\<close>

theorem OS_TaskCreate_full_table_refuses_update:
  "OS_TaskIsInQueue full_table 1 \<and>
   task_count full_table = OS_MAX_TASK_NUM \<and>
   OS_MIN_TIME \<le> period_10ms \<and> period_10ms \<le> OS_MAX_TIME \<and>
   OS_TaskCreate 1 period_10ms SUSPENDED NULL 5 full_table = (NOK_CNT_LIMIT, full_table) \<and>
   OS_GetTaskPeriod full_table 1 = period_1ms \<and>
   OS_GetTaskState full_table 1 = BLOCKED"
proof -
  have "OS_TaskFind full_table 1 = 0"
    unfolding OS_TaskFind_def
    by (rule OS_TaskFind_loop_found) (simp_all add: full_table_sys full_table_nth OS_MAX_TASK_NUM_def)
  then have find: "OS_TaskFind full_table (Suc 0) = 0"
    by simp
  have per: "OS_MIN_TIME \<le> period_10ms" "period_10ms \<le> OS_MAX_TIME"
    by (simp_all add: OS_MIN_TIME_def OS_MAX_TIME_def period_10ms_def period_1ms_def)
  have "OS_TaskCreate 1 period_10ms SUSPENDED NULL 5 full_table = (NOK_CNT_LIMIT, full_table)"
    using per by (simp add: OS_TaskCreate_full full_table_sys)
  moreover have "task_array full_table ! 0 =
     \<lparr>task_function = Suc 0, task_period = period_1ms, execute_time = 0,
      state = BLOCKED, data_ptr = NULL\<rparr>"
    by (rule full_table_nth) (simp add: OS_MAX_TASK_NUM_def)
  ultimately show ?thesis
    using per
    by (simp add: OS_TaskIsInQueue_def OS_GetTaskPeriod_def OS_GetTaskState_def find
        full_table_sys)
       (simp add: OS_MAX_TASK_NUM_def)
qed

section \<open>C2: reclaiming and reusing a position\<close>

text \<open>
  C2 at the input where the code departs from it. From \<open>full_table\<close>, a timer tick
  makes every task \<open>READY\<close>, an execution pass runs them (task 1 returns
  \<open>period_end\<close>), and the next timer tick clears position 0. Task 1 is then no longer
  in the queue and position 0 is free, yet the registration of the new task 26 with a
  valid period returns \<open>NOK_CNT_LIMIT\<close> and changes nothing: the limit is checked on
  the tail index, which a reclaimed position does not lower. Below the limit the free
  position is taken (\<open>OS_TaskCreate_free_slot\<close>).
\<close>

theorem OS_TaskCreate_full_table_refuses_free_slot:
  "\<exists>s calls.
     run_passes stop_first [TimerPass, ExecutionPass, TimerPass] full_table () = Inr (s, (), calls) \<and>
     (0, period_end) \<in> set calls \<and>
     task_function (task_array s ! 0) = NULL \<and>
     \<not> OS_TaskIsInQueue s 1 \<and>
     \<not> OS_TaskIsInQueue s 26 \<and>
     task_count s = OS_MAX_TASK_NUM \<and>
     OS_MIN_TIME \<le> period_1ms \<and> period_1ms \<le> OS_MAX_TIME \<and>
     OS_TaskCreate 26 period_1ms BLOCKED NULL 0 s = (NOK_CNT_LIMIT, s)"
proof -
  let ?s1 = "OS_TaskTimer full_table"
  have ok1: "sys_ok ?s1"
    by (intro sys_ok_OS_TaskTimer full_table_sys)
  have cnt1: "task_count ?s1 = OS_MAX_TASK_NUM"
    by (simp add: OS_TaskTimer_task_count full_table_sys)
  have nth1: "task_array ?s1 ! j = \<lparr>task_function = Suc j, task_period = period_1ms,
      execute_time = 1, state = READY, data_ptr = NULL\<rparr>" if "j < OS_MAX_TASK_NUM" for j
    using that
    by (simp add: OS_TaskTimer_nth full_table_sys full_table_nth timer_task_def period_1ms_def)
  have callable: "ready_tasks_callable ?s1"
    by (simp add: ready_tasks_callable_iff cnt1 nth1 NULL_def)
  from OS_TaskExecution_total [OF callable, of stop_first "()"]
  obtain s2 w2 calls where run: "OS_TaskExecution stop_first ?s1 () = Inr (s2, w2, calls)"
    by blast
  have ok2: "sys_ok s2"
    by (rule sys_ok_OS_TaskExecution [OF ok1 run])
  have cnt2: "task_count s2 = OS_MAX_TASK_NUM"
    using OS_TaskExecution_spec(1) [OF ok1 run] cnt1 by simp
  have called: "\<exists>r. (j, r) \<in> set calls" if "j < OS_MAX_TASK_NUM" for j
  proof -
    have "j \<in> set (map fst calls)"
      unfolding OS_TaskExecution_calls(2) [OF ok1 run] using that by (simp add: cnt1 nth1)
    then show ?thesis
      by auto
  qed
  have ret: "r = (if j = 0 then period_end else period_1ms)"
    if "(j, r) \<in> set calls" and "j < OS_MAX_TASK_NUM" for j r
    using OS_TaskExecution_returns [OF ok1 run that(1)] that(2)
    by (auto simp: nth1 stop_first_def)
  have nth2: "task_array s2 ! j = exec_update 1 (task_array ?s1 ! j)
      (if j = 0 then period_end else period_1ms)" if "j < OS_MAX_TASK_NUM" for j
  proof -
    from called [OF that] obtain r where r: "(j, r) \<in> set calls"
      by blast
    from OS_TaskExecution_calls(3) [OF ok1 run r] ret [OF r that] show ?thesis
      by (simp add: OS_TaskTimer_os_time full_table_sys)
  qed
  let ?s3 = "OS_TaskTimer s2"
  have cnt3: "task_count ?s3 = OS_MAX_TASK_NUM"
    by (simp add: OS_TaskTimer_task_count cnt2)
  have fn3: "task_function (task_array ?s3 ! j) = (if j = 0 then NULL else Suc j)"
    if "j < OS_MAX_TASK_NUM" for j
    using that ok2
    by (simp add: OS_TaskTimer_nth sys_ok_def cnt2 nth2 nth1 timer_task_function
        exec_update_fields period_end_def period_1ms_def)
  have "OS_TaskFind ?s3 1 = OS_MAX_TASK_NUM + 1"
    unfolding OS_TaskFind_def
    by (rule OS_TaskFind_loop_none) (simp add: cnt3 fn3 NULL_def)
  then have notin: "\<not> OS_TaskIsInQueue ?s3 1"
    by (simp add: OS_TaskIsInQueue_def)
  have "OS_TaskFind ?s3 26 = OS_MAX_TASK_NUM + 1"
    unfolding OS_TaskFind_def
    by (rule OS_TaskFind_loop_none) (simp add: cnt3 fn3 NULL_def OS_MAX_TASK_NUM_def)
  then have new: "\<not> OS_TaskIsInQueue ?s3 26"
    by (simp add: OS_TaskIsInQueue_def)
  have per: "OS_MIN_TIME \<le> period_1ms" "period_1ms \<le> OS_MAX_TIME"
    by (simp_all add: OS_MIN_TIME_def OS_MAX_TIME_def period_1ms_def)
  have full: "OS_TaskCreate 26 period_1ms BLOCKED NULL 0 ?s3 = (NOK_CNT_LIMIT, ?s3)"
    using per by (simp add: OS_TaskCreate_full cnt3)
  have first: "(0, period_end) \<in> set calls"
    using called [of 0] ret [of 0] by (auto simp: OS_MAX_TASK_NUM_def)
  have free: "task_function (task_array ?s3 ! 0) = NULL"
    using fn3 [of 0] by (simp add: OS_MAX_TASK_NUM_def)
  have "run_passes stop_first [TimerPass, ExecutionPass, TimerPass] full_table () =
      Inr (?s3, (), calls)"
    by (simp add: run)
  with first free notin new cnt3 per full show ?thesis
    by blast
qed

section \<open>C3: the periodic scenario\<close>

text \<open>
  C3, as stated, fails: with no defer time the deadline stored at registration is the
  time of registration, so the task is due at once. Task 1, registered at program
  start with period 10 and \<open>BLOCKED\<close>, is \<open>READY\<close> after the first timer tick, not the
  tenth; and after ten ticks (time 10) its stored deadline is 10, not 20.
\<close>

theorem ready_on_first_tick:
  "OS_GetTaskState (scenario_start 1 NULL) 1 = BLOCKED \<and>
   OS_GetOsTime (ticks 1 (scenario_start 1 NULL)) = 1 \<and>
   OS_GetTaskState (ticks 1 (scenario_start 1 NULL)) 1 = READY \<and>
   OS_GetOsTime (ticks 10 (scenario_start 1 NULL)) = 10 \<and>
   OS_GetTaskState (ticks 10 (scenario_start 1 NULL)) 1 = READY \<and>
   OS_GetTaskExecuteTime (ticks 10 (scenario_start 1 NULL)) 1 = 10"
proof -
  have t1: "ticks 1 (scenario_start 1 NULL) =
     one_task \<lparr>task_function = 1, task_period = 10, execute_time = 10,
       state = READY, data_ptr = NULL\<rparr> 1"
    using scenario_first_ticks [of 0 1 NULL] by simp
  have t10: "ticks 10 (scenario_start 1 NULL) =
     one_task \<lparr>task_function = 1, task_period = 10, execute_time = 10,
       state = READY, data_ptr = NULL\<rparr> 10"
    using scenario_first_ticks [of 9 1 NULL] by (simp add: eval_nat_numeral)
  have "OS_GetTaskState (scenario_start 1 NULL) 1 = BLOCKED"
    by (simp only: scenario_start_eq one_task_getters_rec)
  then show ?thesis
    by (simp only: t1 t10 one_task_getters_rec one_task_getters(5) simp_thms)
qed

text \<open>
  C3, amended: starting from the empty table at time 0, after \<open>OS_TaskCreate\<close>
  registers a task \<open>A\<close> with period 10, \<open>BLOCKED\<close>, no defer time (its deadline is 0),
  \<open>A\<close> becomes \<open>READY\<close> on the first timer tick, its stored deadline then being 10,
  and stays so with every further tick: at time 10 it is \<open>READY\<close> with deadline 10. An
  execution pass in which \<open>A\<close> returns 10 calls \<open>A\<close> once and puts it back in
  \<open>BLOCKED\<close> with the deadline unchanged; the next tick makes it \<open>READY\<close> again and
  moves the deadline on by 10, so after ten more ticks (time 20) \<open>A\<close> is \<open>READY\<close> with
  deadline 20. The cycle repeats exactly: after \<open>k\<close> rounds of an execution pass and
  ten ticks, at time \<open>10 (k + 1)\<close>, \<open>A\<close> is \<open>READY\<close> with deadline \<open>10 (k + 1)\<close>.
  Times are taken modulo \<open>2^32\<close>.
\<close>

theorem periodic_task_cycle:
  assumes "A \<noteq> NULL" and "\<forall>w. fst (call A ctx w) = 10"
  shows "fst (OS_TaskCreate A period_10ms BLOCKED ctx 0 OS_init) = OK \<and>
     OS_GetTaskState (scenario_start A ctx) A = BLOCKED \<and>
     OS_GetTaskExecuteTime (scenario_start A ctx) A = 0 \<and>
     (\<forall>n. 1 \<le> n \<longrightarrow>
        OS_GetOsTime (ticks n (scenario_start A ctx)) = of_nat n \<and>
        OS_GetTaskState (ticks n (scenario_start A ctx)) A = READY \<and>
        OS_GetTaskExecuteTime (ticks n (scenario_start A ctx)) A = 10) \<and>
     (\<exists>s w'. cycles call k (ticks 10 (scenario_start A ctx)) w = Inr (s, w') \<and>
        OS_GetOsTime s = of_nat (10 * (k + 1)) \<and>
        OS_GetTaskState s A = READY \<and>
        OS_GetTaskExecuteTime s A = of_nat (10 * (k + 1)) \<and>
        (\<exists>s1 w1. OS_TaskExecution call s w' = Inr (s1, w1, [(0, 10)]) \<and>
           OS_GetTaskState s1 A = BLOCKED \<and>
           OS_GetTaskExecuteTime s1 A = of_nat (10 * (k + 1)) \<and>
           (\<forall>n. 1 \<le> n \<longrightarrow>
              OS_GetOsTime (ticks n s1) = of_nat (10 * (k + 1) + n) \<and>
              OS_GetTaskState (ticks n s1) A = READY \<and>
              OS_GetTaskExecuteTime (ticks n s1) A = of_nat (10 * (k + 2)))))"
proof -
  have create: "fst (OS_TaskCreate A period_10ms BLOCKED ctx 0 OS_init) = OK"
    using OS_TaskCreate_first [OF period_10ms_valid(2,3), of A BLOCKED ctx 0 0]
    by (simp add: OS_init_time0)
  have start: "OS_GetTaskState (scenario_start A ctx) A = BLOCKED"
    "OS_GetTaskExecuteTime (scenario_start A ctx) A = 0"
    by (simp_all add: scenario_start_eq one_task_getters_rec)
  have first: "\<forall>n. 1 \<le> n \<longrightarrow>
        OS_GetOsTime (ticks n (scenario_start A ctx)) = of_nat n \<and>
        OS_GetTaskState (ticks n (scenario_start A ctx)) A = READY \<and>
        OS_GetTaskExecuteTime (ticks n (scenario_start A ctx)) A = 10"
  proof (intro allI impI)
    fix n :: nat
    assume "1 \<le> n"
    then obtain m where n: "n = Suc m"
      by (cases n) simp_all
    show "OS_GetOsTime (ticks n (scenario_start A ctx)) = of_nat n \<and>
        OS_GetTaskState (ticks n (scenario_start A ctx)) A = READY \<and>
        OS_GetTaskExecuteTime (ticks n (scenario_start A ctx)) A = 10"
      unfolding n scenario_first_ticks
      by (simp add: one_task_getters_rec one_task_getters(5))
  qed
  let ?R = "\<lambda>j. one_task \<lparr>task_function = A, task_period = 10,
      execute_time = of_nat (10 * j), state = READY, data_ptr = ctx\<rparr> (of_nat (10 * j))"
  let ?B = "\<lambda>j. one_task \<lparr>task_function = A, task_period = 10,
      execute_time = of_nat (10 * j), state = BLOCKED, data_ptr = ctx\<rparr> (of_nat (10 * j))"
  have ten: "ticks 10 (scenario_start A ctx) = ?R 1"
    using scenario_first_ticks [of 9 A ctx] by (simp add: eval_nat_numeral)
  from cycles_scenario [where call = call and A = A and ctx = ctx, OF assms, of k 1 w]
  obtain w' where
    cyc: "cycles call k (?R 1) w = Inr (?R (1 + k), w')"
    by blast
  obtain w1 where c: "call A ctx w' = (10, w1)"
    using assms(2) by (cases "call A ctx w'") (metis fst_conv)
  have exec: "OS_TaskExecution call (?R (1 + k)) w' = Inr (?B (1 + k), w1, [(0, 10)])"
    using assms(1) c by (rule scenario_exec)
  have after: "\<forall>n. 1 \<le> n \<longrightarrow>
      OS_GetOsTime (ticks n (?B (1 + k))) = of_nat (10 * (k + 1) + n) \<and>
      OS_GetTaskState (ticks n (?B (1 + k))) A = READY \<and>
      OS_GetTaskExecuteTime (ticks n (?B (1 + k))) A = of_nat (10 * (k + 2))"
  proof (intro allI impI)
    fix n :: nat
    assume "1 \<le> n"
    then obtain m where n: "n = Suc m"
      by (cases n) simp_all
    show "OS_GetOsTime (ticks n (?B (1 + k))) = of_nat (10 * (k + 1) + n) \<and>
      OS_GetTaskState (ticks n (?B (1 + k))) A = READY \<and>
      OS_GetTaskExecuteTime (ticks n (?B (1 + k))) A = of_nat (10 * (k + 2))"
      unfolding n scenario_next_ticks
      by (simp add: one_task_getters_rec one_task_getters(5) ac_simps)
  qed
  have "cycles call k (ticks 10 (scenario_start A ctx)) w = Inr (?R (1 + k), w') \<and>
        OS_GetOsTime (?R (1 + k)) = of_nat (10 * (k + 1)) \<and>
        OS_GetTaskState (?R (1 + k)) A = READY \<and>
        OS_GetTaskExecuteTime (?R (1 + k)) A = of_nat (10 * (k + 1)) \<and>
        (\<exists>s1 w1. OS_TaskExecution call (?R (1 + k)) w' = Inr (s1, w1, [(0, 10)]) \<and>
           OS_GetTaskState s1 A = BLOCKED \<and>
           OS_GetTaskExecuteTime s1 A = of_nat (10 * (k + 1)) \<and>
           (\<forall>n. 1 \<le> n \<longrightarrow>
              OS_GetOsTime (ticks n s1) = of_nat (10 * (k + 1) + n) \<and>
              OS_GetTaskState (ticks n s1) A = READY \<and>
              OS_GetTaskExecuteTime (ticks n s1) A = of_nat (10 * (k + 2))))"
  proof (intro conjI)
    show "cycles call k (ticks 10 (scenario_start A ctx)) w = Inr (?R (1 + k), w')"
      unfolding ten by (rule cyc)
    show "OS_GetOsTime (?R (1 + k)) = of_nat (10 * (k + 1))"
      by (simp add: one_task_getters(5) ac_simps)
    show "OS_GetTaskState (?R (1 + k)) A = READY"
      by (simp add: one_task_getters_rec)
    show "OS_GetTaskExecuteTime (?R (1 + k)) A = of_nat (10 * (k + 1))"
      by (simp add: one_task_getters_rec ac_simps)
    have "OS_GetTaskState (?B (1 + k)) A = BLOCKED \<and>
        OS_GetTaskExecuteTime (?B (1 + k)) A = of_nat (10 * (k + 1))"
      by (simp add: one_task_getters_rec ac_simps)
    with exec after
    show "\<exists>s1 w1. OS_TaskExecution call (?R (1 + k)) w' = Inr (s1, w1, [(0, 10)]) \<and>
           OS_GetTaskState s1 A = BLOCKED \<and>
           OS_GetTaskExecuteTime s1 A = of_nat (10 * (k + 1)) \<and>
           (\<forall>n. 1 \<le> n \<longrightarrow>
              OS_GetOsTime (ticks n s1) = of_nat (10 * (k + 1) + n) \<and>
              OS_GetTaskState (ticks n s1) A = READY \<and>
              OS_GetTaskExecuteTime (ticks n s1) A = of_nat (10 * (k + 2)))"
      by (intro exI [of _ "?B (1 + k)"] exI [of _ w1] conjI) simp_all
  qed
  then have "\<exists>s w'. cycles call k (ticks 10 (scenario_start A ctx)) w = Inr (s, w') \<and>
        OS_GetOsTime s = of_nat (10 * (k + 1)) \<and>
        OS_GetTaskState s A = READY \<and>
        OS_GetTaskExecuteTime s A = of_nat (10 * (k + 1)) \<and>
        (\<exists>s1 w1. OS_TaskExecution call s w' = Inr (s1, w1, [(0, 10)]) \<and>
           OS_GetTaskState s1 A = BLOCKED \<and>
           OS_GetTaskExecuteTime s1 A = of_nat (10 * (k + 1)) \<and>
           (\<forall>n. 1 \<le> n \<longrightarrow>
              OS_GetOsTime (ticks n s1) = of_nat (10 * (k + 1) + n) \<and>
              OS_GetTaskState (ticks n s1) A = READY \<and>
              OS_GetTaskExecuteTime (ticks n s1) A = of_nat (10 * (k + 2))))"
    by (intro exI [of _ "?R (1 + k)"] exI [of _ w'])
  with create start first show ?thesis
    by (intro conjI)
qed

theorem periodic_task_cycle_witness:
  "(1 :: nat) \<noteq> NULL \<and>
   (\<forall>w :: unit. fst ((\<lambda>f d w. (10 :: 32 word, w)) (1 :: nat) NULL w) = 10) \<and>
   fst (OS_TaskCreate 1 period_10ms BLOCKED NULL 0 OS_init) = OK \<and>
   OS_GetTaskState (ticks 1 (scenario_start 1 NULL)) 1 = READY \<and>
   OS_GetTaskExecuteTime (ticks 1 (scenario_start 1 NULL)) 1 = 10 \<and>
   (\<exists>s. cycles (\<lambda>f d w. (10, w)) 2 (ticks 10 (scenario_start 1 NULL)) () = Inr (s, ()) \<and>
      OS_GetOsTime s = 30 \<and> OS_GetTaskState s 1 = READY \<and> OS_GetTaskExecuteTime s 1 = 30)"
proof -
  have h: "(1 :: nat) \<noteq> NULL" "\<forall>w :: unit. fst ((\<lambda>f d w. (10 :: 32 word, w)) (1 :: nat) NULL w) = 10"
    by (simp_all add: NULL_def)
  note inst = periodic_task_cycle [where A = 1 and ctx = NULL and call = "\<lambda>f d w. (10, w)"
      and k = 2 and w = "()", OF h]
  have create: "fst (OS_TaskCreate 1 period_10ms BLOCKED NULL 0 OS_init) = OK"
    using inst by (elim conjE)
  have "\<forall>n. 1 \<le> n \<longrightarrow>
        OS_GetOsTime (ticks n (scenario_start 1 NULL)) = of_nat n \<and>
        OS_GetTaskState (ticks n (scenario_start 1 NULL)) 1 = READY \<and>
        OS_GetTaskExecuteTime (ticks n (scenario_start 1 NULL)) 1 = 10"
    using inst by (elim conjE)
  then have first: "OS_GetTaskState (ticks 1 (scenario_start 1 NULL)) 1 = READY"
    "OS_GetTaskExecuteTime (ticks 1 (scenario_start 1 NULL)) 1 = 10"
    by (simp_all del: ticks.simps One_nat_def)
  have "\<exists>s w'. cycles (\<lambda>f d w. (10, w)) 2 (ticks 10 (scenario_start 1 NULL)) () = Inr (s, w') \<and>
        OS_GetOsTime s = of_nat (10 * (2 + 1)) \<and>
        OS_GetTaskState s 1 = READY \<and>
        OS_GetTaskExecuteTime s 1 = of_nat (10 * (2 + 1))"
    using inst by (elim conjE exE) blast
  then have "\<exists>s. cycles (\<lambda>f d w. (10, w)) 2 (ticks 10 (scenario_start 1 NULL)) () = Inr (s, ()) \<and>
      OS_GetOsTime s = 30 \<and> OS_GetTaskState s 1 = READY \<and> OS_GetTaskExecuteTime s 1 = 30"
    by simp
  with h create first show ?thesis
    by (intro conjI)
qed

section \<open>C4: the deadline arithmetic of the timer pass\<close>

lemma wrap_state_eq:
  "wrap_state = one_task \<lparr>task_function = 1, task_period = 10, execute_time = - 1,
      state = BLOCKED, data_ptr = NULL\<rparr> (- 1)"
proof -
  have "ticks (2 ^ 32 - 1) OS_init = OS_init\<lparr>os_time := - 1\<rparr>"
    by (simp add: ticks_empty OS_init_def)
  then show ?thesis
    by (simp add: wrap_state_def OS_TaskCreate_first OS_MIN_TIME_def OS_MAX_TIME_def)
qed

text \<open>
  C4, as stated, fails at the time \<open>T = 2^32 - 1\<close>. In \<open>wrap_state\<close> the task at
  position 0 is \<open>BLOCKED\<close> and its deadline is not after the current time, yet the next
  call of \<open>OS_TaskTimer\<close> leaves it \<open>BLOCKED\<close> with the deadline it had: the clock
  wraps to 0 before the comparison.
\<close>

theorem OS_TaskTimer_wrap_keeps_blocked:
  "0 < task_count wrap_state \<and>
   state (task_array wrap_state ! 0) = BLOCKED \<and>
   execute_time (task_array wrap_state ! 0) \<le> OS_GetOsTime wrap_state \<and>
   state (task_array (OS_TaskTimer wrap_state) ! 0) = BLOCKED \<and>
   execute_time (task_array (OS_TaskTimer wrap_state) ! 0) =
     execute_time (task_array wrap_state ! 0)"
proof -
  have "task_array (OS_TaskTimer wrap_state) ! 0 =
      timer_task (os_time wrap_state + 1) (task_array wrap_state ! 0)"
    by (simp add: OS_TaskTimer_nth wrap_state_eq one_task_def OS_MAX_TASK_NUM_def)
  then show ?thesis
    by (simp add: wrap_state_eq one_task_def OS_MAX_TASK_NUM_def OS_GetOsTime_def timer_task_def)
qed

text \<open>
  C4, amended: for a \<open>BLOCKED\<close> task at a position below \<open>task_count\<close>, with period
  \<open>P\<close> and deadline \<open>d\<close>, and a current time \<open>T\<close> with \<open>d \<le> T\<close> and \<open>T < 2^32 - 1\<close>,
  the next call of \<open>OS_TaskTimer\<close> makes the task \<open>READY\<close> and sets its deadline to
  \<open>d + P\<close> (modulo \<open>2^32\<close>); a \<open>BLOCKED\<close> task whose deadline is after the time the
  tick produces stays \<open>BLOCKED\<close> with its deadline unchanged.
\<close>

theorem OS_TaskTimer_blocked:
  assumes "sys_ok s" and "i < task_count s" and "state (task_array s ! i) = BLOCKED"
  shows "(execute_time (task_array s ! i) \<le> OS_GetOsTime s \<and> OS_GetOsTime s \<noteq> - 1 \<longrightarrow>
           state (task_array (OS_TaskTimer s) ! i) = READY \<and>
           execute_time (task_array (OS_TaskTimer s) ! i) =
             execute_time (task_array s ! i) + task_period (task_array s ! i)) \<and>
         (OS_GetOsTime (OS_TaskTimer s) < execute_time (task_array s ! i) \<longrightarrow>
           state (task_array (OS_TaskTimer s) ! i) = BLOCKED \<and>
           execute_time (task_array (OS_TaskTimer s) ! i) = execute_time (task_array s ! i))"
proof -
  have nth: "task_array (OS_TaskTimer s) ! i = timer_task (os_time s + 1) (task_array s ! i)"
    using assms by (simp add: OS_TaskTimer_nth sys_ok_def)
  have le: "execute_time (task_array s ! i) \<le> os_time s + 1"
    if "execute_time (task_array s ! i) \<le> os_time s" and "os_time s \<noteq> - 1"
    using that by (rule word32_le_succ)
  show ?thesis
    unfolding nth OS_GetOsTime_def OS_TaskTimer_os_time
    using assms(3) le by (auto simp: timer_task_def period_1ms_def)
qed

theorem OS_TaskTimer_blocked_witness:
  "sys_ok (one_task \<lparr>task_function = 1, task_period = 10, execute_time = 5,
      state = BLOCKED, data_ptr = NULL\<rparr> 7) \<and>
   state (task_array (OS_TaskTimer (one_task \<lparr>task_function = 1, task_period = 10,
      execute_time = 5, state = BLOCKED, data_ptr = NULL\<rparr> 7)) ! 0) = READY \<and>
   execute_time (task_array (OS_TaskTimer (one_task \<lparr>task_function = 1, task_period = 10,
      execute_time = 5, state = BLOCKED, data_ptr = NULL\<rparr> 7)) ! 0) = 15 \<and>
   state (task_array (OS_TaskTimer (one_task \<lparr>task_function = 1, task_period = 10,
      execute_time = 9, state = BLOCKED, data_ptr = NULL\<rparr> 7)) ! 0) = BLOCKED \<and>
   execute_time (task_array (OS_TaskTimer (one_task \<lparr>task_function = 1, task_period = 10,
      execute_time = 9, state = BLOCKED, data_ptr = NULL\<rparr> 7)) ! 0) = 9"
proof -
  let ?a = "one_task \<lparr>task_function = 1, task_period = 10, execute_time = 5,
      state = BLOCKED, data_ptr = NULL\<rparr> 7"
  let ?b = "one_task \<lparr>task_function = 1, task_period = 10, execute_time = 9,
      state = BLOCKED, data_ptr = NULL\<rparr> 7"
  have a: "sys_ok ?a" "0 < task_count ?a" "state (task_array ?a ! 0) = BLOCKED"
    "execute_time (task_array ?a ! 0) \<le> OS_GetOsTime ?a \<and> OS_GetOsTime ?a \<noteq> - 1"
    by (simp_all add: sys_ok_def one_task_def OS_MAX_TASK_NUM_def OS_GetOsTime_def)
  have b: "sys_ok ?b" "0 < task_count ?b" "state (task_array ?b ! 0) = BLOCKED"
    "OS_GetOsTime (OS_TaskTimer ?b) < execute_time (task_array ?b ! 0)"
    by (simp_all add: sys_ok_def one_task_def OS_MAX_TASK_NUM_def OS_GetOsTime_def
        OS_TaskTimer_os_time)
  from OS_TaskTimer_blocked [OF a(1-3)] a(4)
  have "state (task_array (OS_TaskTimer ?a) ! 0) = READY \<and>
        execute_time (task_array (OS_TaskTimer ?a) ! 0) =
          execute_time (task_array ?a ! 0) + task_period (task_array ?a ! 0)"
    by blast
  moreover from OS_TaskTimer_blocked [OF b(1-3)] b(4)
  have "state (task_array (OS_TaskTimer ?b) ! 0) = BLOCKED \<and>
        execute_time (task_array (OS_TaskTimer ?b) ! 0) = execute_time (task_array ?b ! 0)"
    by blast
  ultimately show ?thesis
    using a(1) by (simp add: one_task_nth0)
qed

section \<open>C5: the period a task returns\<close>

text \<open>
  C5: in a pass of \<open>OS_TaskExecution\<close> every \<open>READY\<close> task below the tail is called,
  and for every call made, of the task at position \<open>i\<close> returning \<open>r\<close> (a value its
  function returns on its data pointer): if \<open>r\<close> differs
  from the stored period, the stored period becomes \<open>r\<close> and the deadline becomes the
  current OS time plus \<open>r\<close>; if \<open>r\<close> is the stored period, period and deadline stay as
  they were. The pass does not change the OS time.
\<close>

theorem OS_TaskExecution_period:
  assumes "sys_ok s" and "ready_tasks_callable s"
  shows "\<exists>s' w' calls. OS_TaskExecution call s w = Inr (s', w', calls) \<and>
     OS_GetOsTime s' = OS_GetOsTime s \<and>
     (\<forall>i<task_count s. state (task_array s ! i) = READY \<longrightarrow> i \<in> fst ` set calls) \<and>
     (\<forall>i r. (i, r) \<in> set calls \<longrightarrow>
        (\<exists>w0 w1. call (task_function (task_array s ! i)) (data_ptr (task_array s ! i)) w0 = (r, w1))) \<and>
     (\<forall>i r. (i, r) \<in> set calls \<longrightarrow>
        (r \<noteq> task_period (task_array s ! i) \<longrightarrow>
           task_period (task_array s' ! i) = r \<and>
           execute_time (task_array s' ! i) = OS_GetOsTime s + r) \<and>
        (r = task_period (task_array s ! i) \<longrightarrow>
           task_period (task_array s' ! i) = task_period (task_array s ! i) \<and>
           execute_time (task_array s' ! i) = execute_time (task_array s ! i)))"
proof -
  from OS_TaskExecution_total [OF assms(2), of call w]
  obtain s' w' calls where run: "OS_TaskExecution call s w = Inr (s', w', calls)"
    by blast
  have "OS_GetOsTime s' = OS_GetOsTime s"
    using OS_TaskExecution_spec(2) [OF assms(1) run] by (simp add: OS_GetOsTime_def)
  moreover have "\<forall>i<task_count s. state (task_array s ! i) = READY \<longrightarrow> i \<in> fst ` set calls"
    using OS_TaskExecution_calls(2) [OF assms(1) run] by auto
  moreover have "\<forall>i r. (i, r) \<in> set calls \<longrightarrow>
        (\<exists>w0 w1. call (task_function (task_array s ! i)) (data_ptr (task_array s ! i)) w0 = (r, w1))"
    using OS_TaskExecution_returns [OF assms(1) run] by blast
  moreover have "\<forall>i r. (i, r) \<in> set calls \<longrightarrow>
        (r \<noteq> task_period (task_array s ! i) \<longrightarrow>
           task_period (task_array s' ! i) = r \<and>
           execute_time (task_array s' ! i) = OS_GetOsTime s + r) \<and>
        (r = task_period (task_array s ! i) \<longrightarrow>
           task_period (task_array s' ! i) = task_period (task_array s ! i) \<and>
           execute_time (task_array s' ! i) = execute_time (task_array s ! i))"
    using OS_TaskExecution_calls(3) [OF assms(1) run]
    by (simp add: exec_update_fields OS_GetOsTime_def)
  ultimately show ?thesis
    using run by blast
qed

theorem OS_TaskExecution_period_witness:
  "sys_ok (one_task \<lparr>task_function = 1, task_period = 10, execute_time = 40,
      state = READY, data_ptr = NULL\<rparr> 33) \<and>
   ready_tasks_callable (one_task \<lparr>task_function = 1, task_period = 10, execute_time = 40,
      state = READY, data_ptr = NULL\<rparr> 33) \<and>
   (\<exists>s' calls.
      OS_TaskExecution (\<lambda>f d w. (20, w)) (one_task \<lparr>task_function = 1, task_period = 10, execute_time = 40,
      state = READY, data_ptr = NULL\<rparr> 33) () = Inr (s', (), calls) \<and>
      (0, 20) \<in> set calls \<and>
      task_period (task_array s' ! 0) = 20 \<and> execute_time (task_array s' ! 0) = 53) \<and>
   (\<exists>s' calls.
      OS_TaskExecution (\<lambda>f d w. (10, w)) (one_task \<lparr>task_function = 1, task_period = 10, execute_time = 40,
      state = READY, data_ptr = NULL\<rparr> 33) () = Inr (s', (), calls) \<and>
      (0, 10) \<in> set calls \<and>
      task_period (task_array s' ! 0) = 10 \<and> execute_time (task_array s' ! 0) = 40)"
proof -
  let ?s = "one_task \<lparr>task_function = 1, task_period = 10, execute_time = 40,
      state = READY, data_ptr = NULL\<rparr> 33"
  have ok: "sys_ok ?s"
    by (rule sys_ok_one_task)
  have callable: "ready_tasks_callable ?s"
    by (simp add: ready_tasks_callable_one_task NULL_def)
  have changed: "\<exists>s' calls.
      OS_TaskExecution (\<lambda>f d w. (20, w)) ?s () = Inr (s', (), calls) \<and>
      (0, 20) \<in> set calls \<and>
      task_period (task_array s' ! 0) = 20 \<and> execute_time (task_array s' ! 0) = 53"
  proof -
    from OS_TaskExecution_period [OF ok callable, of "\<lambda>f d w. (20, w)" "()"]
    obtain s' w' calls where run:
      "OS_TaskExecution (\<lambda>f d w. (20, w)) ?s () = Inr (s', w', calls)"
      and every: "\<forall>i r. (i, r) \<in> set calls \<longrightarrow>
          (r \<noteq> task_period (task_array ?s ! i) \<longrightarrow>
             task_period (task_array s' ! i) = r \<and>
             execute_time (task_array s' ! i) = OS_GetOsTime ?s + r) \<and>
          (r = task_period (task_array ?s ! i) \<longrightarrow>
             task_period (task_array s' ! i) = task_period (task_array ?s ! i) \<and>
             execute_time (task_array s' ! i) = execute_time (task_array ?s ! i))"
      by blast
    have "OS_TaskExecution (\<lambda>f d w. (20, w)) ?s () =
        Inr (one_task (exec_update 33 \<lparr>task_function = 1, task_period = 10, execute_time = 40,
        state = READY, data_ptr = NULL\<rparr> 20) 33, (), [(0, 20)])"
      by (rule exec_one_ready) (simp_all add: NULL_def)
    with run have calls: "calls = [(0, 20)]"
      by simp
    then have "(0, 20) \<in> set calls"
      by simp
    with every have "task_period (task_array s' ! 0) = 20 \<and>
        execute_time (task_array s' ! 0) = OS_GetOsTime ?s + 20"
      by (simp add: one_task_nth0)
    then have "task_period (task_array s' ! 0) = 20 \<and> execute_time (task_array s' ! 0) = 53"
      by (simp add: OS_GetOsTime_def one_task_def)
    with run calls show ?thesis
      by simp
  qed
  have same: "\<exists>s' calls.
      OS_TaskExecution (\<lambda>f d w. (10, w)) ?s () = Inr (s', (), calls) \<and>
      (0, 10) \<in> set calls \<and>
      task_period (task_array s' ! 0) = 10 \<and> execute_time (task_array s' ! 0) = 40"
  proof -
    from OS_TaskExecution_period [OF ok callable, of "\<lambda>f d w. (10, w)" "()"]
    obtain s' w' calls where run:
      "OS_TaskExecution (\<lambda>f d w. (10, w)) ?s () = Inr (s', w', calls)"
      and every: "\<forall>i r. (i, r) \<in> set calls \<longrightarrow>
          (r \<noteq> task_period (task_array ?s ! i) \<longrightarrow>
             task_period (task_array s' ! i) = r \<and>
             execute_time (task_array s' ! i) = OS_GetOsTime ?s + r) \<and>
          (r = task_period (task_array ?s ! i) \<longrightarrow>
             task_period (task_array s' ! i) = task_period (task_array ?s ! i) \<and>
             execute_time (task_array s' ! i) = execute_time (task_array ?s ! i))"
      by blast
    have "OS_TaskExecution (\<lambda>f d w. (10, w)) ?s () =
        Inr (one_task (exec_update 33 \<lparr>task_function = 1, task_period = 10, execute_time = 40,
        state = READY, data_ptr = NULL\<rparr> 10) 33, (), [(0, 10)])"
      by (rule exec_one_ready) (simp_all add: NULL_def)
    with run have calls: "calls = [(0, 10)]"
      by simp
    then have "(0, 10) \<in> set calls"
      by simp
    with every have "task_period (task_array s' ! 0) = 10 \<and> execute_time (task_array s' ! 0) = 40"
      by (simp add: one_task_nth0)
    with run calls show ?thesis
      by simp
  qed
  from ok callable changed same show ?thesis
    by blast
qed

section \<open>C6: the state a task is left in\<close>

text \<open>
  C6: in a pass of \<open>OS_TaskExecution\<close> the positions called are exactly the positions
  below the tail found \<open>READY\<close>, each called once; after the pass a called task is
  \<open>STOPPED\<close> if and only if it returned \<open>period_end\<close>, whether or not the period
  changed, and \<open>BLOCKED\<close> otherwise; no position below the tail is left \<open>READY\<close>.
\<close>

theorem OS_TaskExecution_states:
  assumes "sys_ok s" and "ready_tasks_callable s"
  shows "\<exists>s' w' calls. OS_TaskExecution call s w = Inr (s', w', calls) \<and>
     distinct (map fst calls) \<and>
     set (map fst calls) = {i. i < task_count s \<and> state (task_array s ! i) = READY} \<and>
     (\<forall>i r. (i, r) \<in> set calls \<longrightarrow>
        (\<exists>w0 w1. call (task_function (task_array s ! i)) (data_ptr (task_array s ! i)) w0 = (r, w1))) \<and>
     (\<forall>i r. (i, r) \<in> set calls \<longrightarrow>
        (state (task_array s' ! i) = STOPPED \<longleftrightarrow> r = period_end) \<and>
        (state (task_array s' ! i) = BLOCKED \<longleftrightarrow> r \<noteq> period_end)) \<and>
     (\<forall>i<task_count s'. state (task_array s' ! i) \<noteq> READY)"
proof -
  from OS_TaskExecution_total [OF assms(2), of call w]
  obtain s' w' calls where run: "OS_TaskExecution call s w = Inr (s', w', calls)"
    by blast
  note calls = OS_TaskExecution_calls [OF assms(1) run]
  have st: "\<forall>i r. (i, r) \<in> set calls \<longrightarrow>
        (state (task_array s' ! i) = STOPPED \<longleftrightarrow> r = period_end) \<and>
        (state (task_array s' ! i) = BLOCKED \<longleftrightarrow> r \<noteq> period_end)"
    using calls(3) by (simp add: exec_update_fields)
  have "\<forall>i<task_count s'. state (task_array s' ! i) \<noteq> READY"
  proof (intro allI impI)
    fix i
    assume "i < task_count s'"
    then have lt: "i < task_count s"
      using OS_TaskExecution_spec(1) [OF assms(1) run] by simp
    show "state (task_array s' ! i) \<noteq> READY"
    proof (cases "state (task_array s ! i) = READY")
      case True
      with lt calls(2) have "i \<in> set (map fst calls)"
        by simp
      then obtain r where "(i, r) \<in> set calls"
        by auto
      then have "state (task_array s' ! i) = (if r = period_end then STOPPED else BLOCKED)"
        using calls(3) by (simp add: exec_update_fields)
      then show ?thesis
        by simp
    next
      case False
      with OS_TaskExecution_spec(5) [OF assms(1) run, of i] show ?thesis
        by simp
    qed
  qed
  moreover have "\<forall>i r. (i, r) \<in> set calls \<longrightarrow>
        (\<exists>w0 w1. call (task_function (task_array s ! i)) (data_ptr (task_array s ! i)) w0 = (r, w1))"
    using OS_TaskExecution_returns [OF assms(1) run] by blast
  ultimately show ?thesis
    using st calls(1,2) run by blast
qed

theorem OS_TaskExecution_states_witness:
  "sys_ok (one_task \<lparr>task_function = 1, task_period = 10, execute_time = 40,
      state = READY, data_ptr = NULL\<rparr> 33) \<and>
   ready_tasks_callable (one_task \<lparr>task_function = 1, task_period = 10, execute_time = 40,
      state = READY, data_ptr = NULL\<rparr> 33) \<and>
   (\<exists>s' calls.
      OS_TaskExecution (\<lambda>f d w. (period_end, w)) (one_task \<lparr>task_function = 1, task_period = 10, execute_time = 40,
      state = READY, data_ptr = NULL\<rparr> 33) () = Inr (s', (), calls) \<and>
      calls = [(0, period_end)] \<and> state (task_array s' ! 0) = STOPPED) \<and>
   (\<exists>s' calls.
      OS_TaskExecution (\<lambda>f d w. (10, w)) (one_task \<lparr>task_function = 1, task_period = 10, execute_time = 40,
      state = READY, data_ptr = NULL\<rparr> 33) () = Inr (s', (), calls) \<and>
      calls = [(0, 10)] \<and> state (task_array s' ! 0) = BLOCKED)"
proof -
  let ?s = "one_task \<lparr>task_function = 1, task_period = 10, execute_time = 40,
      state = READY, data_ptr = NULL\<rparr> 33"
  have ok: "sys_ok ?s"
    by (rule sys_ok_one_task)
  have callable: "ready_tasks_callable ?s"
    by (simp add: ready_tasks_callable_one_task NULL_def)
  have stopped: "\<exists>s' calls.
      OS_TaskExecution (\<lambda>f d w. (period_end, w)) ?s () = Inr (s', (), calls) \<and>
      calls = [(0, period_end)] \<and> state (task_array s' ! 0) = STOPPED"
  proof -
    from OS_TaskExecution_states [OF ok callable, of "\<lambda>f d w. (period_end, w)" "()"]
    obtain s' w' calls where run:
      "OS_TaskExecution (\<lambda>f d w. (period_end, w)) ?s () = Inr (s', w', calls)"
      and every: "\<forall>i r. (i, r) \<in> set calls \<longrightarrow>
          (state (task_array s' ! i) = STOPPED \<longleftrightarrow> r = period_end) \<and>
          (state (task_array s' ! i) = BLOCKED \<longleftrightarrow> r \<noteq> period_end)"
      by blast
    have "OS_TaskExecution (\<lambda>f d w. (period_end, w)) ?s () =
        Inr (one_task (exec_update 33 \<lparr>task_function = 1, task_period = 10, execute_time = 40,
        state = READY, data_ptr = NULL\<rparr> period_end) 33, (), [(0, period_end)])"
      by (rule exec_one_ready) (simp_all add: NULL_def)
    with run have calls: "calls = [(0, period_end)]"
      by simp
    then have "(0, period_end) \<in> set calls"
      by simp
    with every have "state (task_array s' ! 0) = STOPPED"
      by blast
    with run calls show ?thesis
      by simp
  qed
  have blocked: "\<exists>s' calls.
      OS_TaskExecution (\<lambda>f d w. (10, w)) ?s () = Inr (s', (), calls) \<and>
      calls = [(0, 10)] \<and> state (task_array s' ! 0) = BLOCKED"
  proof -
    from OS_TaskExecution_states [OF ok callable, of "\<lambda>f d w. (10, w)" "()"]
    obtain s' w' calls where run:
      "OS_TaskExecution (\<lambda>f d w. (10, w)) ?s () = Inr (s', w', calls)"
      and every: "\<forall>i r. (i, r) \<in> set calls \<longrightarrow>
          (state (task_array s' ! i) = STOPPED \<longleftrightarrow> r = period_end) \<and>
          (state (task_array s' ! i) = BLOCKED \<longleftrightarrow> r \<noteq> period_end)"
      by blast
    have "OS_TaskExecution (\<lambda>f d w. (10, w)) ?s () =
        Inr (one_task (exec_update 33 \<lparr>task_function = 1, task_period = 10, execute_time = 40,
        state = READY, data_ptr = NULL\<rparr> 10) 33, (), [(0, 10)])"
      by (rule exec_one_ready) (simp_all add: NULL_def)
    with run have calls: "calls = [(0, 10)]"
      by simp
    then have "(0, 10) \<in> set calls"
      by simp
    with every have "state (task_array s' ! 0) = BLOCKED"
      by (simp add: period_end_def)
    with run calls show ?thesis
      by simp
  qed
  from ok callable stopped blocked show ?thesis
    by blast
qed

section \<open>C7: the capacity of the table\<close>

text \<open>
  C7: starting from the empty table (at any time \<open>T\<close>), \<open>OS_MAX_TASK_NUM\<close>
  registrations of distinct tasks (non-null function pointers) with valid periods all
  return \<open>OK\<close>; the registration that follows, with a valid period and whatever its
  function pointer, returns \<open>NOK_CNT_LIMIT\<close> and leaves the state as it was.
\<close>

theorem capacity_exceeded:
  assumes "length rs = OS_MAX_TASK_NUM" and "distinct (map fst rs)" and "NULL \<notin> set (map fst rs)"
    and "\<forall>r\<in>set rs. OS_MIN_TIME \<le> fst (snd r) \<and> fst (snd r) \<le> OS_MAX_TIME"
    and "OS_MIN_TIME \<le> q" and "q \<le> OS_MAX_TIME"
  shows "fst (create_all rs (OS_init\<lparr>os_time := T\<rparr>)) = replicate OS_MAX_TASK_NUM OK \<and>
         OS_TaskCreate g q st d defer_time (snd (create_all rs (OS_init\<lparr>os_time := T\<rparr>))) =
           (NOK_CNT_LIMIT, snd (create_all rs (OS_init\<lparr>os_time := T\<rparr>)))"
  using assms(5,6)
  by (simp add: create_all_from_empty [OF assms(1-4)] OS_TaskCreate_full)

theorem capacity_exceeded_witness:
  "length full_requests = OS_MAX_TASK_NUM \<and>
   distinct (map fst full_requests) \<and>
   NULL \<notin> set (map fst full_requests) \<and>
   26 \<notin> set (map fst full_requests) \<and>
   OS_MIN_TIME \<le> period_1ms \<and> period_1ms \<le> OS_MAX_TIME \<and>
   fst (create_all full_requests OS_init) = replicate OS_MAX_TASK_NUM OK \<and>
   OS_TaskCreate 26 period_1ms BLOCKED NULL 0 (snd (create_all full_requests OS_init)) =
     (NOK_CNT_LIMIT, snd (create_all full_requests OS_init))"
proof -
  have q: "OS_MIN_TIME \<le> period_1ms" "period_1ms \<le> OS_MAX_TIME"
    by (simp_all add: OS_MIN_TIME_def OS_MAX_TIME_def period_1ms_def)
  have g: "26 \<notin> set (map fst full_requests)"
    by (simp add: full_requests_def comp_def OS_MAX_TASK_NUM_def)
  have init: "OS_init\<lparr>os_time := 0\<rparr> = OS_init"
    by (simp add: OS_init_def)
  from capacity_exceeded [OF full_requests_ok q, of 0 26 BLOCKED NULL 0]
  show ?thesis
    using full_requests_ok(1-3) g q unfolding init by blast
qed

section \<open>C8: suspended tasks\<close>

text \<open>
  C8: a \<open>SUSPENDED\<close> task below the tail is left exactly as it is (deadline, period,
  state and all) by every number of timer ticks and by every sequence of timer and
  execution passes, however long, and no execution pass of the sequence calls it; such
  a sequence runs to its end wherever the tasks the passes call have a function pointer
  that can be called. The setters of the period and of the execute time leave the task
  \<open>SUSPENDED\<close> as well: what writes the state of an existing element from an argument
  is \<open>OS_SetTaskState\<close> and the re-registration by \<open>OS_TaskCreate\<close>, which both name
  the new state.
\<close>

theorem suspended_task_ignored:
  assumes "sys_ok s" and "i < task_count s" and "state (task_array s ! i) = SUSPENDED"
  shows "task_array (ticks n s) ! i = task_array s ! i \<and>
         (\<forall>s' w' calls. run_passes call ps s w = Inr (s', w', calls) \<longrightarrow>
            task_array s' ! i = task_array s ! i \<and> i \<notin> fst ` set calls) \<and>
         (runnable_tasks_callable s \<longrightarrow>
            (\<exists>s' w' calls. run_passes call ps s w = Inr (s', w', calls))) \<and>
         state (task_array (snd (OS_SetTaskPeriod f p s)) ! i) = SUSPENDED \<and>
         state (task_array (snd (OS_SetTaskExecuteTime g e s)) ! i) = SUSPENDED"
proof (intro conjI allI impI)
  show "task_array (ticks n s) ! i = task_array s ! i"
    using assms by (rule ticks_suspended)
next
  fix s' w' calls
  assume run: "run_passes call ps s w = Inr (s', w', calls)"
  from run_passes_suspended_result [OF assms run]
  show "task_array s' ! i = task_array s ! i" and "i \<notin> fst ` set calls"
    by simp_all
next
  assume "runnable_tasks_callable s"
  from run_passes_suspended [OF assms(1) this assms(2,3), of call ps w]
  show "\<exists>s' w' calls. run_passes call ps s w = Inr (s', w', calls)"
    by blast
next
  show "state (task_array (snd (OS_SetTaskPeriod f p s)) ! i) = SUSPENDED"
    using assms(3) by (simp add: OS_SetTaskPeriod_state)
next
  show "state (task_array (snd (OS_SetTaskExecuteTime g e s)) ! i) = SUSPENDED"
    using assms(3) by (simp add: OS_SetTaskExecuteTime_state)
qed

theorem suspended_task_ignored_witness:
  "sys_ok (one_task \<lparr>task_function = 1, task_period = 10, execute_time = 0,
      state = SUSPENDED, data_ptr = NULL\<rparr> 0) \<and>
   0 < task_count (one_task \<lparr>task_function = 1, task_period = 10, execute_time = 0,
      state = SUSPENDED, data_ptr = NULL\<rparr> 0) \<and>
   state (task_array (one_task \<lparr>task_function = 1, task_period = 10, execute_time = 0,
      state = SUSPENDED, data_ptr = NULL\<rparr> 0) ! 0) = SUSPENDED \<and>
   runnable_tasks_callable (one_task \<lparr>task_function = 1, task_period = 10, execute_time = 0,
      state = SUSPENDED, data_ptr = NULL\<rparr> 0) \<and>
   task_array (ticks 100 (one_task \<lparr>task_function = 1, task_period = 10, execute_time = 0,
      state = SUSPENDED, data_ptr = NULL\<rparr> 0)) ! 0 =
     \<lparr>task_function = 1, task_period = 10, execute_time = 0,
      state = SUSPENDED, data_ptr = NULL\<rparr> \<and>
   (\<exists>s' calls.
      run_passes (\<lambda>f d w. (10, w)) [TimerPass, ExecutionPass, TimerPass]
        (one_task \<lparr>task_function = 1, task_period = 10, execute_time = 0,
           state = SUSPENDED, data_ptr = NULL\<rparr> 0) () = Inr (s', (), calls) \<and>
      task_array s' ! 0 = \<lparr>task_function = 1, task_period = 10, execute_time = 0,
           state = SUSPENDED, data_ptr = NULL\<rparr> \<and>
      0 \<notin> fst ` set calls)"
proof -
  let ?s = "one_task \<lparr>task_function = 1, task_period = 10, execute_time = 0,
      state = SUSPENDED, data_ptr = NULL\<rparr> 0"
  have h: "sys_ok ?s" "0 < task_count ?s" "state (task_array ?s ! 0) = SUSPENDED"
    by (simp_all add: sys_ok_one_task one_task_nth0) (simp_all add: one_task_def)
  have r: "runnable_tasks_callable ?s"
    by (simp add: runnable_tasks_callable_iff one_task_def OS_MAX_TASK_NUM_def)
  note inst = suspended_task_ignored [OF h, of _ "\<lambda>f d w. (10, w)"
      "[TimerPass, ExecutionPass, TimerPass]" "()"]
  have t: "task_array (ticks 100 ?s) ! 0 = task_array ?s ! 0"
    by (rule inst [of 100, THEN conjunct1])
  have a: "\<forall>s' w' calls.
      run_passes (\<lambda>f d w. (10, w)) [TimerPass, ExecutionPass, TimerPass] ?s () = Inr (s', w', calls) \<longrightarrow>
      task_array s' ! 0 = task_array ?s ! 0 \<and> 0 \<notin> fst ` set calls"
    by (rule inst [of 0, THEN conjunct2, THEN conjunct1])
  have "runnable_tasks_callable ?s \<longrightarrow>
      (\<exists>s' w' calls. run_passes (\<lambda>f d w. (10, w)) [TimerPass, ExecutionPass, TimerPass] ?s () =
         Inr (s', w', calls))"
    by (rule inst [of 0, THEN conjunct2, THEN conjunct2, THEN conjunct1])
  with r obtain s' w' calls where
    run: "run_passes (\<lambda>f d w. (10, w)) [TimerPass, ExecutionPass, TimerPass] ?s () = Inr (s', w', calls)"
    by blast
  with a have "task_array s' ! 0 = task_array ?s ! 0 \<and> 0 \<notin> fst ` set calls"
    by blast
  with run have "\<exists>s' calls.
      run_passes (\<lambda>f d w. (10, w)) [TimerPass, ExecutionPass, TimerPass] ?s () = Inr (s', (), calls) \<and>
      task_array s' ! 0 = task_array ?s ! 0 \<and> 0 \<notin> fst ` set calls"
    by auto
  with h r t show ?thesis
    by (simp only: one_task_nth0 simp_thms)
qed

section \<open>C9: the clock\<close>

lemma unat_os_time_ticks:
  assumes "unat (os_time s) + n < 2 ^ 32"
  shows "unat (os_time (ticks n s)) = unat (os_time s) + n"
proof -
  have n: "unat (word_of_nat n :: 32 word) = n"
    using assms by (simp add: unat_of_nat)
  have "unat (os_time s) + unat (word_of_nat n :: 32 word) < 2 ^ LENGTH(32)"
    using assms n by simp
  then have "unat (os_time s + word_of_nat n) = unat (os_time s) + unat (word_of_nat n :: 32 word)"
    by (simp only: unat_add_lem)
  then show ?thesis
    by (simp add: ticks_os_time n)
qed

text \<open>
  C9, as stated, fails: the clock is a 32-bit counter, and the tick that follows time
  \<open>2^32 - 1\<close> takes it back to 0. After \<open>2^32 - 1\<close> ticks from program start the
  clock reads \<open>4294967295\<close>; one more call of \<open>OS_TaskTimer\<close> and it reads 0.
\<close>

theorem clock_wraps_to_zero:
  "OS_GetOsTime (ticks (2 ^ 32 - 1) OS_init) = 4294967295 \<and>
   OS_GetOsTime (OS_TaskTimer (ticks (2 ^ 32 - 1) OS_init)) = 0"
  by (simp add: OS_GetOsTime_def OS_TaskTimer_os_time ticks_os_time OS_init_def)

text \<open>
  C9, amended: every call of \<open>OS_TaskTimer\<close> adds exactly one tick unit to the value
  \<open>OS_GetOsTime\<close> returns, modulo \<open>2^32\<close>; and over \<open>n\<close> ticks that start at a time
  \<open>T\<close> with \<open>T + n < 2^32\<close> (no wrap-around in between) the clock is strictly
  increasing.
\<close>

theorem OS_TaskTimer_clock:
  "OS_GetOsTime (OS_TaskTimer s) = OS_GetOsTime s + period_1ms \<and>
   (unat (OS_GetOsTime s) + n < 2 ^ 32 \<longrightarrow>
      (\<forall>j k. j < k \<and> k \<le> n \<longrightarrow> OS_GetOsTime (ticks j s) < OS_GetOsTime (ticks k s)))"
proof (intro conjI impI allI)
  show "OS_GetOsTime (OS_TaskTimer s) = OS_GetOsTime s + period_1ms"
    by (simp add: OS_GetOsTime_def OS_TaskTimer_os_time period_1ms_def)
next
  fix j k
  assume bound: "unat (OS_GetOsTime s) + n < 2 ^ 32" and jk: "j < k \<and> k \<le> n"
  have "unat (os_time (ticks j s)) = unat (os_time s) + j"
    using bound jk by (intro unat_os_time_ticks) (simp add: OS_GetOsTime_def)
  moreover have "unat (os_time (ticks k s)) = unat (os_time s) + k"
    using bound jk by (intro unat_os_time_ticks) (simp add: OS_GetOsTime_def)
  ultimately show "OS_GetOsTime (ticks j s) < OS_GetOsTime (ticks k s)"
    using jk by (simp add: OS_GetOsTime_def word_less_nat_alt)
qed

theorem OS_TaskTimer_clock_witness:
  "OS_GetOsTime (OS_TaskTimer OS_init) = OS_GetOsTime OS_init + period_1ms \<and>
   unat (OS_GetOsTime OS_init) + 3 < (2::nat) ^ 32 \<and>
   OS_GetOsTime (ticks 1 OS_init) < OS_GetOsTime (ticks 3 OS_init)"
proof -
  have b: "unat (OS_GetOsTime OS_init) + 3 < (2::nat) ^ 32"
    by (simp add: OS_GetOsTime_def OS_init_def)
  have c: "OS_GetOsTime (OS_TaskTimer OS_init) = OS_GetOsTime OS_init + period_1ms"
    using OS_TaskTimer_clock [of OS_init 3] by blast
  have "\<forall>j k. j < k \<and> k \<le> 3 \<longrightarrow>
      OS_GetOsTime (ticks j OS_init) < OS_GetOsTime (ticks k OS_init)"
    using OS_TaskTimer_clock [of OS_init 3] b by blast
  then have "(1::nat) < 3 \<and> (3::nat) \<le> 3 \<longrightarrow>
      OS_GetOsTime (ticks 1 OS_init) < OS_GetOsTime (ticks 3 OS_init)"
    by blast
  then have "OS_GetOsTime (ticks 1 OS_init) < OS_GetOsTime (ticks 3 OS_init)"
    by simp
  with b c show ?thesis
    by blast
qed

section \<open>C10: the null pointer as a task\<close>

text \<open>
  C10: in every state with a position below the tail whose function pointer is null
  (a reclaimed position is one), \<open>OS_TaskIsInQueue\<close> answers \<open>True\<close> for the null
  pointer; and \<open>OS_TaskCreate\<close> does not refuse the null pointer: below the limit and
  with a valid period it returns \<open>OK\<close>. Such a state is reached from program start:
  register task 1, tick, run it (it returns \<open>period_end\<close>), tick.
\<close>

theorem null_pointer_is_found:
  "(sys_ok s \<and> i < task_count s \<and> task_function (task_array s ! i) = NULL \<longrightarrow>
      OS_TaskIsInQueue s NULL) \<and>
   (OS_MIN_TIME \<le> p \<and> p \<le> OS_MAX_TIME \<and> task_count s < OS_MAX_TASK_NUM \<longrightarrow>
      fst (OS_TaskCreate NULL p st d defer_time s) = OK)"
proof (intro conjI impI)
  assume a: "sys_ok s \<and> i < task_count s \<and> task_function (task_array s ! i) = NULL"
  then have "OS_TaskFind s NULL \<le> i"
    by (intro OS_TaskFind_some) simp_all
  with a show "OS_TaskIsInQueue s NULL"
    by (simp add: OS_TaskIsInQueue_def sys_ok_def)
next
  assume "OS_MIN_TIME \<le> p \<and> p \<le> OS_MAX_TIME \<and> task_count s < OS_MAX_TASK_NUM"
  then have g: "\<not> (OS_MIN_TIME > p \<or> OS_MAX_TIME < p)" "\<not> OS_MAX_TASK_NUM \<le> task_count s"
    by auto
  show "fst (OS_TaskCreate NULL p st d defer_time s) = OK"
    unfolding OS_TaskCreate_def if_not_P [OF g(1)] if_not_P [OF g(2)]
    by (cases "OS_TaskInsertPosition s") (simp add: Let_def)
qed

theorem null_pointer_is_found_witness:
  "run_passes (\<lambda>f d w. (period_end, w)) [TimerPass, ExecutionPass, TimerPass]
     (snd (OS_TaskCreate 1 period_1ms BLOCKED NULL 0 OS_init)) () =
     Inr (one_task zero_task 2, (), [(0, period_end)]) \<and>
   sys_ok (one_task zero_task 2) \<and>
   0 < task_count (one_task zero_task 2) \<and>
   task_function (task_array (one_task zero_task 2) ! 0) = NULL \<and>
   OS_TaskIsInQueue (one_task zero_task 2) NULL \<and>
   OS_MIN_TIME \<le> period_1ms \<and> period_1ms \<le> OS_MAX_TIME \<and>
   task_count OS_init < OS_MAX_TASK_NUM \<and>
   fst (OS_TaskCreate NULL period_1ms BLOCKED NULL 0 OS_init) = OK"
proof -
  have per: "OS_MIN_TIME \<le> period_1ms" "period_1ms \<le> OS_MAX_TIME"
    by (simp_all add: OS_MIN_TIME_def OS_MAX_TIME_def period_1ms_def)
  have create: "OS_TaskCreate f period_1ms BLOCKED NULL 0 OS_init =
     (OK, one_task \<lparr>task_function = f, task_period = period_1ms, execute_time = 0,
                    state = BLOCKED, data_ptr = NULL\<rparr> 0)" for f
    using OS_TaskCreate_first [OF per, of f BLOCKED NULL 0 0] by (simp add: OS_init_time0)
  let ?ready = "\<lparr>task_function = 1, task_period = period_1ms, execute_time = 1,
                    state = READY, data_ptr = NULL\<rparr>"
  have tick1: "OS_TaskTimer (one_task \<lparr>task_function = 1, task_period = period_1ms,
      execute_time = 0, state = BLOCKED, data_ptr = NULL\<rparr> 0) = one_task ?ready 1"
    by (simp add: OS_TaskTimer_one_task timer_task_def period_1ms_def)
  have exec: "OS_TaskExecution (\<lambda>f d w. (period_end, w)) (one_task ?ready 1) () =
      Inr (one_task (exec_update 1 ?ready period_end) 1, (), [(0, period_end)])"
    by (rule exec_one_ready) (simp_all add: NULL_def)
  have tick2: "OS_TaskTimer (one_task (exec_update 1 ?ready period_end) 1) = one_task zero_task 2"
    by (simp add: OS_TaskTimer_one_task timer_task_def exec_update_def zero_task_def
        period_end_def period_1ms_def)
  have run: "run_passes (\<lambda>f d w. (period_end, w)) [TimerPass, ExecutionPass, TimerPass]
     (snd (OS_TaskCreate 1 period_1ms BLOCKED NULL 0 OS_init)) () =
     Inr (one_task zero_task 2, (), [(0, period_end)])"
    by (simp only: run_passes.simps create snd_conv tick1 exec tick2 sum.case prod.case
        append_Nil2)
  have h: "sys_ok (one_task zero_task 2)" "0 < task_count (one_task zero_task 2)"
    "task_function (task_array (one_task zero_task 2) ! 0) = NULL"
    by (simp_all add: sys_ok_one_task one_task_nth0) (simp_all add: one_task_def zero_task_def)
  have c: "task_count OS_init < OS_MAX_TASK_NUM"
    by (simp add: OS_init_def OS_MAX_TASK_NUM_def)
  have found: "OS_TaskIsInQueue (one_task zero_task 2) NULL"
    by (rule null_pointer_is_found [of _ 0, THEN conjunct1, THEN mp]) (intro conjI h)
  have ok: "fst (OS_TaskCreate NULL period_1ms BLOCKED NULL 0 OS_init) = OK"
    by (rule null_pointer_is_found [THEN conjunct2, THEN mp]) (intro conjI per c)
  show ?thesis
    by (intro conjI run h found per c ok)
qed

end
